theory Spec2Isabelle
  imports Main "HOL-Library.Multiset"
begin

section \<open>JavaScript strings and the node:path helpers the engine uses\<close>

text \<open>
  Strings are lists of characters; a character stands for one JavaScript code unit below
  256.  \<open>basename\<close> and \<open>extname\<close> follow the POSIX variant of node:path.
\<close>

definition is_ws :: "char \<Rightarrow> bool" where
  "is_ws c = (c \<in> set [CHR 0x09, CHR 0x0A, CHR 0x0B, CHR 0x0C, CHR 0x0D, CHR 0x20, CHR 0xA0])"

definition trim :: "string \<Rightarrow> string" where
  "trim s = rev (dropWhile is_ws (rev (dropWhile is_ws s)))"

definition basename :: "string \<Rightarrow> string" where
  "basename p = rev (takeWhile (\<lambda>c. c \<noteq> CHR ''/'') (dropWhile (\<lambda>c. c = CHR ''/'') (rev p)))"

section \<open>SaveResult and its merge\<close>

record saved_file =
  filePath :: string
  fileName :: string
  byteLength :: nat
  contentType :: string
  metadataId :: "string option"
  sourceFileName :: "string option"
  isStreamPart :: bool
  streamPartIndex :: "nat option"
  isFinalStreamFrame :: bool

datatype event_type =
    DownloadUrlResolved | FileSaved | FileIgnored | SaveFailed
  | MetadataMissingDownloadUrl | MetadataMissingItem
  | ConvoStreamCompleted | CollectorComplete

text \<open>
  One record for every StreamEvent.  The fields \<open>ts\<close>, \<open>message\<close>, \<open>responseUrl\<close>,
  \<open>downloadUrl\<close>, \<open>streamFrameUrl\<close> and the beacon details are free text that no branch of
  the engine reads; they are left out.  A boolean field the source only tests with
  \<open>=== true\<close> is a \<open>bool\<close> (absent reads as \<open>False\<close>).
\<close>

record stream_event =
  e_type :: event_type
  e_source :: string
  e_metadataId :: "string option"
  e_fileName :: "string option"
  e_sourceFileName :: "string option"
  e_outputPath :: "string option"
  e_byteLength :: "nat option"
  e_contentType :: "string option"
  e_isStreamPart :: bool
  e_streamPartIndex :: "nat option"
  e_isFinalStreamFrame :: bool
  e_reason :: string
  e_savedCount :: "nat option"

text \<open>A stream event of a given type and source with every optional field absent.\<close>

definition blank_event :: "event_type \<Rightarrow> string \<Rightarrow> stream_event" where
  "blank_event t src =
     \<lparr> e_type = t, e_source = src, e_metadataId = None, e_fileName = None,
       e_sourceFileName = None, e_outputPath = None, e_byteLength = None,
       e_contentType = None, e_isStreamPart = False, e_streamPartIndex = None,
       e_isFinalStreamFrame = False, e_reason = [], e_savedCount = None \<rparr>"

record save_result =
  savedCount :: nat
  savedFiles :: "saved_file list"
  metadataIds :: "string list"
  streamEvents :: "stream_event list"

text \<open>\<open>[...new Set(xs)]\<close>: insertion order, the first occurrence of each element kept.\<close>

fun set_add_all :: "'a list \<Rightarrow> 'a list \<Rightarrow> 'a list" where
  "set_add_all seen [] = seen"
| "set_add_all seen (x # xs) = set_add_all (if x \<in> set seen then seen else seen @ [x]) xs"

definition js_unique :: "'a list \<Rightarrow> 'a list" where
  "js_unique xs = set_add_all [] xs"

text \<open>
  \<open>buildSaveResult\<close>: \<open>filter(Boolean)\<close> drops the empty string from the ids; a stream
  event is an object, hence truthy, and \<open>streamEvents.filter(Boolean)\<close> keeps all of them.
\<close>

definition buildSaveResult ::
  "nat \<Rightarrow> saved_file list \<Rightarrow> string list \<Rightarrow> stream_event list \<Rightarrow> save_result" where
  "buildSaveResult n files ids events =
     \<lparr> savedCount = n, savedFiles = files,
       metadataIds = js_unique (filter (\<lambda>i. i \<noteq> []) ids),
       streamEvents = events \<rparr>"

definition emptySaveResult :: save_result where
  "emptySaveResult = buildSaveResult 0 [] [] []"

text \<open>\<open>mergeSaveResults\<close>: a missing \<open>extra\<close> returns \<open>base\<close> untouched.\<close>

definition mergeSaveResults :: "save_result \<Rightarrow> save_result option \<Rightarrow> save_result" where
  "mergeSaveResults base extra =
     (case extra of
        None \<Rightarrow> base
      | Some x \<Rightarrow>
          buildSaveResult (savedCount base + savedCount x)
            (savedFiles base @ savedFiles x)
            (metadataIds base @ metadataIds x)
            (streamEvents base @ streamEvents x))"



section \<open>Frame classifier\<close>

definition is_digit :: "char \<Rightarrow> bool" where
  "is_digit c = (48 \<le> (of_char c :: nat) \<and> (of_char c :: nat) \<le> 57)"

text \<open>\<open>String.prototype.toLowerCase\<close> on code units below 256 (ASCII and Latin-1 capitals).\<close>

definition to_lower :: "char \<Rightarrow> char" where
  "to_lower c =
     (let n = (of_char c :: nat)
      in if (65 \<le> n \<and> n \<le> 90) \<or> (192 \<le> n \<and> n \<le> 222 \<and> n \<noteq> 215)
         then char_of (n + 32) else c)"

definition toLowerCase :: "string \<Rightarrow> string" where
  "toLowerCase s = map to_lower s"

text \<open>
  The regular expression \<open>/\.part(\d+)(?=\.[^.]+$|$)/i\<close>.  \<open>is_part_tag\<close> is the literal
  \<open>.part\<close> under the \<open>i\<close> flag; \<open>lookahead_ok\<close> is the lookahead: one dot followed by at
  least one character that is not a dot up to the end of the input, or the end of the
  input at once.
\<close>

definition is_part_tag :: "string \<Rightarrow> bool" where
  "is_part_tag seg =
     (case seg of
        [c0, c1, c2, c3, c4] \<Rightarrow>
          c0 = CHR ''.'' \<and> (c1 = CHR ''p'' \<or> c1 = CHR ''P'') \<and> (c2 = CHR ''a'' \<or> c2 = CHR ''A'')
          \<and> (c3 = CHR ''r'' \<or> c3 = CHR ''R'') \<and> (c4 = CHR ''t'' \<or> c4 = CHR ''T'')
      | _ \<Rightarrow> False)"

definition lookahead_ok :: "string \<Rightarrow> bool" where
  "lookahead_ok rest =
     (case rest of
        [] \<Rightarrow> True
      | c # ext \<Rightarrow> c = CHR ''.'' \<and> ext \<noteq> [] \<and> CHR ''.'' \<notin> set ext)"

text \<open>
  \<open>\d+\<close> is greedy: the matcher first takes every digit and gives digits back one at a
  time while the lookahead fails.  \<open>backtrack_digits k s\<close> tries the captures of length
  \<open>k\<close>, \<open>k - 1\<close>, ..., \<open>1\<close> in that order.
\<close>

fun backtrack_digits :: "nat \<Rightarrow> string \<Rightarrow> string option" where
  "backtrack_digits 0 s = None"
| "backtrack_digits (Suc k) s =
     (if lookahead_ok (drop (Suc k) s) then Some (take (Suc k) s) else backtrack_digits k s)"

text \<open>A match that starts at the first character of the input; the result is group 1.\<close>

definition part_match_here :: "string \<Rightarrow> string option" where
  "part_match_here s =
     (if is_part_tag (take 5 s)
      then backtrack_digits (length (takeWhile is_digit (drop 5 s))) (drop 5 s)
      else None)"

text \<open>\<open>RegExp.prototype.exec\<close> without the \<open>g\<close> flag: the leftmost start position that matches.\<close>

fun part_exec :: "string \<Rightarrow> string option" where
  "part_exec [] = None"
| "part_exec (c # cs) =
     (case part_match_here (c # cs) of Some ds \<Rightarrow> Some ds | None \<Rightarrow> part_exec cs)"

definition isLikelyImageStreamPartName :: "string option \<Rightarrow> bool" where
  "isLikelyImageStreamPartName v =
     (case v of
        None \<Rightarrow> False
      | Some s \<Rightarrow> if trim s = [] then False else part_exec (basename (trim s)) \<noteq> None)"

text \<open>
  \<open>Number(digits)\<close>: the value of a decimal digit string, rounded to the nearest double
  (ties to even).  \<open>None\<close> is \<open>Infinity\<close>, which \<open>Number.isFinite\<close> rejects.
\<close>

definition digits_value :: "string \<Rightarrow> nat" where
  "digits_value ds = foldl (\<lambda>acc c. 10 * acc + ((of_char c :: nat) - 48)) 0 ds"

fun bit_length :: "nat \<Rightarrow> nat" where
  "bit_length n = (if n = 0 then 0 else Suc (bit_length (n div 2)))"

definition to_double :: "nat \<Rightarrow> nat option" where
  "to_double n =
     (if bit_length n \<le> 53 then Some n
      else
        let e = bit_length n - 53;
            q = n div 2 ^ e;
            r = n mod 2 ^ e;
            half = 2 ^ (e - 1);
            q' = (if r > half \<or> (r = half \<and> odd q) then q + 1 else q);
            v = q' * 2 ^ e
        in if v \<ge> 2 ^ 1024 then None else Some v)"

record frame_info =
  fi_fileName :: string
  isPart :: bool
  partIndex :: "nat option"
  isFinal :: bool

text \<open>\<open>parseImageStreamFrameInfo\<close>; \<open>None\<close> is a value that is not a string.\<close>

definition parseImageStreamFrameInfo :: "string option \<Rightarrow> frame_info" where
  "parseImageStreamFrameInfo v =
     (let fileName = (case v of
                        None \<Rightarrow> []
                      | Some s \<Rightarrow> if trim s \<noteq> [] then basename (trim s) else [])
      in if fileName = []
         then \<lparr> fi_fileName = [], isPart = False, partIndex = None, isFinal = False \<rparr>
         else
           (case part_exec fileName of
              None \<Rightarrow> \<lparr> fi_fileName = fileName, isPart = False, partIndex = None, isFinal = True \<rparr>
            | Some ds \<Rightarrow>
                \<lparr> fi_fileName = fileName, isPart = True,
                  partIndex = to_double (digits_value ds), isFinal = False \<rparr>))"

definition normalizeMatchFileName :: "string option \<Rightarrow> string" where
  "normalizeMatchFileName v =
     (case v of
        None \<Rightarrow> []
      | Some s \<Rightarrow> if trim s = [] then [] else toLowerCase (basename (trim s)))"

text \<open>
  A URL as \<open>new URL(...)\<close> parses it: the whole text, the host name, the path and the
  \<open>id\<close> search parameter.
\<close>

record url =
  href :: string
  hostname :: string
  pathname :: string
  id_param :: "string option"

text \<open>
  The \<open>download_url\<close> field of a decoded body: absent (or not a string, or empty), a string
  that \<open>new URL\<close> rejects, or a URL.
\<close>

datatype download_url_field = NoDownloadUrl | NotAUrl string | DownloadUrl url

text \<open>
  The decoded body of a JSON response.  \<open>BodyOther\<close> is a body that is not an object
  (\<open>null\<close>, a number, a string, a boolean).  \<open>file_size_bytes\<close> is the whole number that
  \<open>Number(file_size_bytes)\<close> evaluates to (\<open>null\<close> reads as 0) and \<open>None\<close> when that is
  not a finite number (the field is absent, or holds text that is no number); a size with
  a fraction is not modelled.  \<open>detail_message\<close> is \<open>detail.message\<close> and \<open>item\<close> the item id of
  an estuary body.
\<close>

record file_info =
  download_url :: download_url_field
  file_name :: "string option"
  file_size_bytes :: "int option"
  detail_message :: "string option"
  item :: "string option"

datatype json_body = BodyObject file_info | BodyOther

definition isLikelyUploadEchoMetadata :: "json_body \<Rightarrow> bool" where
  "isLikelyUploadEchoMetadata body =
     (case body of
        BodyOther \<Rightarrow> False
      | BodyObject fileInfo \<Rightarrow>
          let fileName = (case file_name fileInfo of Some s \<Rightarrow> trim s | None \<Rightarrow> []);
              hasFileName = (fileName \<noteq> []);
              hasFileSize = (case file_size_bytes fileInfo of Some n \<Rightarrow> n > 0 | None \<Rightarrow> False)
          in \<not> hasFileName \<and> \<not> hasFileSize)"

text \<open>
  The wording of the specification: \<open>name\<close> is \<open>pre\<close>, a \<open>.part\<close> tag, the digits \<open>ds\<close>
  and \<open>rest\<close>, where \<open>rest\<close> is empty (the segment is at the end) or is the final extension.
\<close>

definition part_segment_at :: "string \<Rightarrow> string \<Rightarrow> string \<Rightarrow> string \<Rightarrow> bool" where
  "part_segment_at name pre ds rest =
     (\<exists>seg. name = pre @ seg @ ds @ rest \<and> is_part_tag seg \<and> ds \<noteq> [] \<and> list_all is_digit ds
            \<and> lookahead_ok rest)"


section \<open>Result reducer\<close>

text \<open>
  The files of the output directory.  A \<open>filesystem\<close> maps a file to its bytes.  The
  reducer meets the files through path strings: \<open>file_of v p\<close> is the file that the path
  \<open>p\<close> names (the operating system resolves dots, links and letter case, so two path
  strings may name one file), and \<open>unlink_refused v p\<close> says that \<open>unlink p\<close> throws although
  the file exists (a permission, a busy file).
\<close>

type_synonym buffer = string
type_synonym filesystem = "string \<rightharpoonup> buffer"

record volume =
  stored :: filesystem
  file_of :: "string \<Rightarrow> string"
  unlink_refused :: "string \<Rightarrow> bool"

definition existsSync :: "volume \<Rightarrow> string \<Rightarrow> bool" where
  "existsSync v p = (stored v (file_of v p) \<noteq> None)"


text \<open>\<open>unlink(p)\<close>; \<open>None\<close>: it throws (no such file, or the removal is refused).\<close>

definition unlink :: "volume \<Rightarrow> string \<Rightarrow> volume option" where
  "unlink v p =
     (if \<not> existsSync v p \<or> unlink_refused v p then None
      else Some (v\<lparr> stored := (stored v)(file_of v p := None) \<rparr>))"

text \<open>\<open>typeof v === "string" && v ? v : null\<close>\<close>

definition nonempty_string :: "string option \<Rightarrow> string option" where
  "nonempty_string v = (case v of None \<Rightarrow> None | Some s \<Rightarrow> if s \<noteq> [] then Some s else None)"

text \<open>\<open>typeof v === "string" && v.trim() ? basename(v.trim()) : ""\<close>\<close>

definition base_or_empty :: "string option \<Rightarrow> string" where
  "base_or_empty v = (case v of None \<Rightarrow> [] | Some s \<Rightarrow> if trim s \<noteq> [] then basename (trim s) else [])"

record frame_meta =
  fm_sourceFileName :: string
  fm_isFinalStreamFrame :: bool
  fm_isStreamPart :: bool
  fm_streamPartIndex :: "nat option"

record scan_state =
  frameInfoByMetadataId :: "string \<rightharpoonup> frame_meta"
  finalFrameMetadataIds :: "string list"
  preferredFinalFrameMetadataIds :: "string list"
  sawPartFrameInSequence :: bool

definition scan_init :: scan_state where
  "scan_init = \<lparr> frameInfoByMetadataId = Map.empty, finalFrameMetadataIds = [],
                 preferredFinalFrameMetadataIds = [], sawPartFrameInSequence = False \<rparr>"

text \<open>
  What the first loop reads off one stream event: the metadata id of a
  \<open>download_url_resolved\<close> event (\<open>None\<close>: the loop skips the event), and the two frame flags.
\<close>

definition resolved_id :: "stream_event \<Rightarrow> string option" where
  "resolved_id ev =
     (if e_type ev \<noteq> DownloadUrlResolved then None else nonempty_string (e_metadataId ev))"

definition resolved_isFinal :: "stream_event \<Rightarrow> bool" where
  "resolved_isFinal ev =
     (let src = base_or_empty (e_sourceFileName ev)
      in e_isFinalStreamFrame ev \<or> (src \<noteq> [] \<and> \<not> isLikelyImageStreamPartName (Some src)))"

definition resolved_isPart :: "stream_event \<Rightarrow> bool" where
  "resolved_isPart ev =
     (let src = base_or_empty (e_sourceFileName ev)
      in e_isStreamPart ev
         \<or> (if src \<noteq> [] then isLikelyImageStreamPartName (Some src) else False))"

text \<open>One iteration of the first loop over the stream events.\<close>

definition scan_event :: "scan_state \<Rightarrow> stream_event \<Rightarrow> scan_state" where
  "scan_event st ev =
     (case resolved_id ev of
        None \<Rightarrow> st
      | Some mid \<Rightarrow>
          let st1 = st\<lparr> frameInfoByMetadataId :=
                          (frameInfoByMetadataId st)(mid \<mapsto>
                             \<lparr> fm_sourceFileName = base_or_empty (e_sourceFileName ev),
                               fm_isFinalStreamFrame = resolved_isFinal ev,
                               fm_isStreamPart = resolved_isPart ev,
                               fm_streamPartIndex = e_streamPartIndex ev \<rparr>) \<rparr>;
              st2 = (if resolved_isPart ev then st1\<lparr> sawPartFrameInSequence := True \<rparr> else st1)
          in if resolved_isFinal ev
             then st2\<lparr> finalFrameMetadataIds := finalFrameMetadataIds st2 @ [mid],
                       preferredFinalFrameMetadataIds :=
                         (if sawPartFrameInSequence st2
                          then preferredFinalFrameMetadataIds st2 @ [mid]
                          else preferredFinalFrameMetadataIds st2) \<rparr>
             else st2)"

definition scan_events :: "stream_event list \<Rightarrow> scan_state" where
  "scan_events evs = foldl scan_event scan_init evs"

record candidate =
  c_filePath :: string
  c_fileName :: string
  c_sourceFileName :: string
  c_byteLength :: "nat option"
  c_contentType :: string
  c_metadataId :: "string option"
  c_isStreamPart :: bool
  c_streamPartIndex :: "nat option"
  c_isFinalStreamFrame :: bool

text \<open>The argument object of \<open>pushCandidate\<close>; \<open>None\<close> is an absent or non-string field.\<close>

record push_arg =
  pa_filePath :: "string option"
  pa_fileName :: "string option"
  pa_sourceFileName :: "string option"
  pa_byteLength :: "nat option"
  pa_contentType :: "string option"
  pa_metadataId :: "string option"
  pa_isStreamPart :: bool
  pa_streamPartIndex :: "nat option"
  pa_isFinalStreamFrame :: bool

definition pushCandidate ::
  "(string \<rightharpoonup> frame_meta) \<Rightarrow> candidate list \<Rightarrow> push_arg \<Rightarrow> candidate list" where
  "pushCandidate infoById orderedCandidates a =
     (case pa_filePath a of
        None \<Rightarrow> orderedCandidates
      | Some fp \<Rightarrow>
          if trim fp = [] then orderedCandidates
          else
            let normalizedPath = trim fp;
                normalizedMetadataId = nonempty_string (pa_metadataId a);
                metadataFrameInfo =
                  (case normalizedMetadataId of None \<Rightarrow> None | Some mid \<Rightarrow> infoById mid);
                infoSourceFileName =
                  (case metadataFrameInfo of None \<Rightarrow> [] | Some m \<Rightarrow> fm_sourceFileName m);
                normalizedSourceFileName =
                  (case pa_sourceFileName a of
                     None \<Rightarrow> infoSourceFileName
                   | Some s \<Rightarrow> if trim s \<noteq> [] then basename (trim s) else infoSourceFileName);
                normalizedIsFinalStreamFrame =
                  (pa_isFinalStreamFrame a
                   \<or> (normalizedSourceFileName \<noteq> []
                       \<and> \<not> isLikelyImageStreamPartName (Some normalizedSourceFileName))
                   \<or> (case metadataFrameInfo of
                         None \<Rightarrow> False | Some m \<Rightarrow> fm_isFinalStreamFrame m));
                normalizedIsStreamPart =
                  (pa_isStreamPart a
                   \<or> (if normalizedSourceFileName \<noteq> []
                       then isLikelyImageStreamPartName (Some normalizedSourceFileName)
                       else False)
                   \<or> (case metadataFrameInfo of
                         None \<Rightarrow> False | Some m \<Rightarrow> fm_isStreamPart m));
                normalizedStreamPartIndex =
                  (case pa_streamPartIndex a of
                     Some i \<Rightarrow> Some i
                   | None \<Rightarrow> (case metadataFrameInfo of
                                None \<Rightarrow> None | Some m \<Rightarrow> fm_streamPartIndex m))
            in orderedCandidates @
                 [\<lparr> c_filePath = normalizedPath,
                    c_fileName =
                      (case pa_fileName a of
                         None \<Rightarrow> basename normalizedPath
                       | Some n \<Rightarrow> if trim n \<noteq> [] then basename (trim n)
                                  else basename normalizedPath),
                    c_sourceFileName = normalizedSourceFileName,
                    c_byteLength = pa_byteLength a,
                    c_contentType = (case pa_contentType a of Some t \<Rightarrow> t | None \<Rightarrow> []),
                    c_metadataId = normalizedMetadataId,
                    c_isStreamPart = normalizedIsStreamPart,
                    c_streamPartIndex = normalizedStreamPartIndex,
                    c_isFinalStreamFrame = normalizedIsFinalStreamFrame \<rparr>])"

definition push_arg_of_event :: "stream_event \<Rightarrow> push_arg" where
  "push_arg_of_event ev =
     \<lparr> pa_filePath = e_outputPath ev, pa_fileName = e_fileName ev,
       pa_sourceFileName = e_sourceFileName ev, pa_byteLength = e_byteLength ev,
       pa_contentType = e_contentType ev, pa_metadataId = e_metadataId ev,
       pa_isStreamPart = e_isStreamPart ev, pa_streamPartIndex = e_streamPartIndex ev,
       pa_isFinalStreamFrame = e_isFinalStreamFrame ev \<rparr>"

definition push_arg_of_file :: "saved_file \<Rightarrow> push_arg" where
  "push_arg_of_file f =
     \<lparr> pa_filePath = Some (filePath f), pa_fileName = Some (fileName f),
       pa_sourceFileName = sourceFileName f, pa_byteLength = Some (byteLength f),
       pa_contentType = Some (contentType f), pa_metadataId = metadataId f,
       pa_isStreamPart = isStreamPart f, pa_streamPartIndex = streamPartIndex f,
       pa_isFinalStreamFrame = isFinalStreamFrame f \<rparr>"

text \<open>
  The candidates in the order the reducer collects them: one per \<open>file_saved\<close> event, then
  one per entry of \<open>savedFiles\<close> that has a file path.
\<close>

definition orderedCandidates :: "save_result \<Rightarrow> candidate list" where
  "orderedCandidates sr =
     (let infoById = frameInfoByMetadataId (scan_events (streamEvents sr));
          fromEvents = foldl (\<lambda>acc ev. if e_type ev \<noteq> FileSaved then acc
                                         else pushCandidate infoById acc (push_arg_of_event ev))
                             [] (streamEvents sr)
      in foldl (\<lambda>acc f. pushCandidate infoById acc (push_arg_of_file f)) fromEvents
               (filter (\<lambda>f. filePath f \<noteq> []) (savedFiles sr)))"

text \<open>
  The loop from the last candidate to the first that keeps, for each path that exists on
  disk, the most recent candidate.  The argument list is already reversed.
\<close>

fun collect_existing :: "volume \<Rightarrow> string list \<Rightarrow> candidate list \<Rightarrow> candidate list" where
  "collect_existing fs seen [] = []"
| "collect_existing fs seen (c # cs) =
     (if c_filePath c = [] then collect_existing fs seen cs
      else if c_filePath c \<in> set seen then collect_existing fs seen cs
      else if \<not> existsSync fs (c_filePath c) then collect_existing fs seen cs
      else c # collect_existing fs (c_filePath c # seen) cs)"

definition existingCandidates :: "volume \<Rightarrow> candidate list \<Rightarrow> candidate list" where
  "existingCandidates fs ordered = collect_existing fs [] (rev ordered)"




text \<open>
  The cleanup loop: every path is unlinked inside its own \<open>try\<close>, and a failure is
  ignored.
\<close>

definition unlink_quietly :: "volume \<Rightarrow> string \<Rightarrow> volume" where
  "unlink_quietly v p = (case unlink v p of Some v' \<Rightarrow> v' | None \<Rightarrow> v)"










subsection \<open>Two media runs\<close>










section \<open>File names, content types and saving a buffer\<close>

fun split_on :: "char \<Rightarrow> string \<Rightarrow> string list" where
  "split_on c [] = [[]]"
| "split_on c (x # xs) =
     (if x = c then [] # split_on c xs
      else (case split_on c xs of
              [] \<Rightarrow> [[x]]
            | h # t \<Rightarrow> (x # h) # t))"

definition normalizeContentType :: "string \<Rightarrow> string" where
  "normalizeContentType ct = toLowerCase (trim (hd (split_on CHR '';'' ct)))"

definition isJsonContentType :: "string \<Rightarrow> bool" where
  "isJsonContentType ct = (normalizeContentType ct = ''application/json'')"

text \<open>
  \<open>MIME_EXTENSION_MAP\<close>: its own keys, and the properties it inherits from
  \<open>Object.prototype\<close>, which the lookup \<open>MIME_EXTENSION_MAP[normalized]\<close> finds as well.  The
  key is in lower case, so of the inherited names only \<open>constructor\<close> and \<open>__proto__\<close> can be
  met.  Their values are a function and an object; both are truthy, and the callers only
  ever append the result to a file name, so each stands here as the text it is appended as.
\<close>

definition MIME_EXTENSION_MAP :: "(string \<times> string) list" where
  "MIME_EXTENSION_MAP =
     [(''image/jpeg'', ''.jpg''), (''image/jpg'', ''.jpg''), (''image/png'', ''.png''),
      (''image/webp'', ''.webp''), (''image/gif'', ''.gif''), (''image/svg+xml'', ''.svg''),
      (''application/pdf'', ''.pdf''), (''text/csv'', ''.csv''), (''application/csv'', ''.csv''),
      (''text/plain'', ''.txt''), (''text/markdown'', ''.md''), (''application/json'', ''.json''),
      (''application/zip'', ''.zip''), (''application/x-zip-compressed'', ''.zip''),
      (''application/msword'', ''.doc''),
      (''application/vnd.openxmlformats-officedocument.wordprocessingml.document'', ''.docx''),
      (''application/vnd.ms-excel'', ''.xls''),
      (''application/vnd.openxmlformats-officedocument.spreadsheetml.sheet'', ''.xlsx''),
      (''application/vnd.ms-powerpoint'', ''.ppt''),
      (''application/vnd.openxmlformats-officedocument.presentationml.presentation'', ''.pptx'')]"

definition inherited_properties :: "(string \<times> string) list" where
  "inherited_properties =
     [(''constructor'', ''function Object() { [native code] }''),
      (''__proto__'', ''[object Object]'')]"

definition is_subtype_char :: "char \<Rightarrow> bool" where
  "is_subtype_char c =
     (let n = (of_char c :: nat)
      in (97 \<le> n \<and> n \<le> 122) \<or> (65 \<le> n \<and> n \<le> 90) \<or> (48 \<le> n \<and> n \<le> 57) \<or> c = CHR ''-'')"

definition extensionFromContentType :: "string \<Rightarrow> string" where
  "extensionFromContentType ct =
     (let normalized = normalizeContentType ct
      in if normalized = [] then []
         else
           (case map_of (MIME_EXTENSION_MAP @ inherited_properties) normalized of
              Some mapped \<Rightarrow> mapped
            | None \<Rightarrow>
                (case split_on CHR ''/'' normalized of
                   type # subtype # _ \<Rightarrow>
                     if type = [] \<or> subtype = [] then []
                     else
                       let simplifiedSubtype = hd (split_on CHR ''+'' subtype)
                       in if simplifiedSubtype = [] then []
                          else if type = ''image'' \<and> list_all is_subtype_char simplifiedSubtype
                          then CHR ''.'' # toLowerCase simplifiedSubtype
                          else if type = ''text'' \<and> simplifiedSubtype = ''csv'' then ''.csv''
                          else []
                 | _ \<Rightarrow> [])))"

text \<open>
  \<open>extname\<close> of node:path (POSIX): the part of the last path component from its last dot
  on; empty when the component has no dot, starts with its only dot, or is \<open>..\<close>.
\<close>

definition extname :: "string \<Rightarrow> string" where
  "extname p =
     (let b = basename p
      in if CHR ''.'' \<notin> set b then []
         else
           let ext = CHR ''.'' # rev (takeWhile (\<lambda>c. c \<noteq> CHR ''.'') (rev b));
               stem = take (length b - length ext) b
           in if stem = [] \<or> b = ''..'' then [] else ext)"

definition applyExtension :: "string \<Rightarrow> string \<Rightarrow> string" where
  "applyExtension name ext =
     (if ext = [] then name
      else if extname name \<noteq> [] then name
      else name @ ext)"

definition is_safe_char :: "char \<Rightarrow> bool" where
  "is_safe_char c =
     (let n = (of_char c :: nat)
      in (97 \<le> n \<and> n \<le> 122) \<or> (65 \<le> n \<and> n \<le> 90) \<or> (48 \<le> n \<and> n \<le> 57)
         \<or> c = CHR ''.'' \<or> c = CHR ''_'' \<or> c = CHR ''-'')"

definition sanitizeFileName :: "string \<Rightarrow> string" where
  "sanitizeFileName v = map (\<lambda>c. if is_safe_char c then c else CHR ''_'') v"

text \<open>\<open>String(n)\<close> for a natural number, and \<open>padStart(2, "0")\<close>.\<close>

fun decimal :: "nat \<Rightarrow> string" where
  "decimal n = (if n < 10 then [char_of (48 + n)] else decimal (n div 10) @ [char_of (48 + n mod 10)])"

definition padStart2 :: "string \<Rightarrow> string" where
  "padStart2 s = replicate (2 - length s) CHR ''0'' @ s"

text \<open>
  \<open>resolve(config.outputDir, name)\<close> of node:path (POSIX) for an absolute output directory
  (\<open>config.outputDir\<close> is itself a result of \<open>resolve\<close>): an absolute \<open>name\<close> stands alone,
  otherwise it is appended to the directory; then empty segments and \<open>.\<close> are dropped and
  \<open>..\<close> removes the segment before it.
\<close>

fun normalize_segments :: "string list \<Rightarrow> string list \<Rightarrow> string list" where
  "normalize_segments acc [] = rev acc"
| "normalize_segments acc (s # ss) =
     (if s = [] \<or> s = ''.'' then normalize_segments acc ss
      else if s = ''..'' then normalize_segments (tl acc) ss
      else normalize_segments (s # acc) ss)"

definition resolve_in :: "string \<Rightarrow> string \<Rightarrow> string" where
  "resolve_in dir name =
     (let joined = (if take 1 name = ''/'' then name else dir @ ''/'' @ name);
          segments = normalize_segments [] (split_on CHR ''/'' joined)
      in if segments = [] then ''/'' else concat (map (\<lambda>s. CHR ''/'' # s) segments))"

datatype generation_mode = ImageMode | FileMode

text \<open>
  The image run of the caller.  Its counter \<open>nextFileIndex\<close> is mutated by every save and is
  kept in the state that is passed along.
\<close>

record image_run =
  runId :: string
  randomizeFileNames :: bool
  generationMode :: generation_mode
  filePrefix :: string

text \<open>\<open>imageRun?.filePrefix || fallback\<close>\<close>

definition prefix_or :: "image_run option \<Rightarrow> string \<Rightarrow> string" where
  "prefix_or run fallback =
     (case run of None \<Rightarrow> fallback
      | Some r \<Rightarrow> if filePrefix r \<noteq> [] then filePrefix r else fallback)"

definition nextRandomBaseName :: "image_run \<Rightarrow> nat \<Rightarrow> string \<times> nat" where
  "nextRandomBaseName run idx =
     ((if filePrefix run \<noteq> [] then filePrefix run else ''image'')
        @ ''-'' @ runId run @ ''-'' @ padStart2 (decimal idx),
      idx + 1)"

text \<open>
  The part of the world a save touches: the output directory, the counter of the image
  run and the clock (\<open>Date.now()\<close>).  The files are kept by the path that \<open>resolve\<close>
  returns.  The argument \<open>write_ok\<close> says whether \<open>ensureOutputDir\<close> and \<open>writeFile\<close>
  succeed (\<open>writeFile\<close> throws, for one, when the path names a directory); when one of them
  throws, so does \<open>saveBufferToDisk\<close>.
\<close>

record disk =
  files :: filesystem
  nextFileIndex :: nat
  now :: nat

datatype error = WriteFailed | DownloadFailed "nat option" | InvalidUrl | InvalidJson | CopyFailed string

text \<open>The path \<open>saveBufferToDisk\<close> writes to, and the counter of the image run after it.\<close>

definition save_target :: "string \<Rightarrow> image_run option \<Rightarrow> disk \<Rightarrow> string \<Rightarrow> string \<Rightarrow> string \<times> nat" where
  "save_target dir run d fileName0 ct =
     (let ext = extensionFromContentType ct;
          normalizedName = (if trim fileName0 \<noteq> [] then basename (trim fileName0) else []);
          plainName =
            (if normalizedName \<noteq> [] then normalizedName
             else prefix_or run ''download'' @ ''-'' @ decimal (now d));
          (baseName, idx) =
            (case run of
               None \<Rightarrow> (plainName, nextFileIndex d)
             | Some r \<Rightarrow> if randomizeFileNames r then nextRandomBaseName r (nextFileIndex d)
                        else (plainName, nextFileIndex d));
          safeName = applyExtension (sanitizeFileName baseName) ext
      in (resolve_in dir safeName, idx))"

definition saveBufferToDisk ::
  "string \<Rightarrow> image_run option \<Rightarrow> disk \<Rightarrow> bool \<Rightarrow> buffer \<Rightarrow> string \<Rightarrow> string \<Rightarrow> string option
     \<Rightarrow> error + (saved_file \<times> disk)" where
  "saveBufferToDisk dir run d write_ok buf fileName0 ct mid =
     (let path = fst (save_target dir run d fileName0 ct);
          idx = snd (save_target dir run d fileName0 ct)
      in if \<not> write_ok then Inl WriteFailed
         else Inr (\<lparr> filePath = path, fileName = basename path, byteLength = length buf,
                      contentType = ct, metadataId = mid, sourceFileName = None,
                      isStreamPart = False, streamPartIndex = None, isFinalStreamFrame = False \<rparr>,
                   d\<lparr> files := (files d)(path \<mapsto> buf), nextFileIndex := idx \<rparr>))"


section \<open>Byte resolver\<close>

text \<open>
  What a fetch returns: the body, the content type, the status and the file name that
  \<open>parseContentDispositionFileName\<close> reads off the \<open>content-disposition\<close> header (empty when
  there is none).
\<close>

record fetched =
  f_buffer :: buffer
  f_contentType :: string
  f_status :: nat
  f_fileName :: string

text \<open>
  The network as one call of the resolver meets it.  \<open>curl\<close> is the result of
  \<open>fetchDownloadWithCurl\<close> (\<open>None\<close>: it throws); \<open>request k\<close> is the outcome of the \<open>k\<close>-th
  \<open>pageInstance.request.get\<close>: the request throws, a response arrives, or a response with
  the given status arrives and reading its body throws.
\<close>

datatype attempt = Threw | Responded fetched | Unreadable nat

record network =
  curl :: "fetched option"
  request :: "nat \<Rightarrow> attempt"

text \<open>\<open>response.ok()\<close>\<close>

definition response_ok :: "fetched \<Rightarrow> bool" where
  "response_ok r = (200 \<le> f_status r \<and> f_status r \<le> 299)"

text \<open>
  The retry loop over the attempt numbers that are left.  The result comes with the list of
  the delays slept so far, in milliseconds.
\<close>

fun request_loop ::
  "(nat \<Rightarrow> attempt) \<Rightarrow> nat \<Rightarrow> nat list \<Rightarrow> nat option \<Rightarrow> nat list \<Rightarrow> (error + fetched) \<times> nat list" where
  "request_loop req attempts [] lastStatus slept = (Inl (DownloadFailed lastStatus), slept)"
| "request_loop req attempts (k # ks) lastStatus slept =
     (case req k of
        Responded r \<Rightarrow>
          if response_ok r \<and> \<not> isJsonContentType (f_contentType r) then (Inr r, slept)
          else request_loop req attempts ks (Some (f_status r))
                 (if k < attempts then slept @ [350 * k] else slept)
      | Unreadable status \<Rightarrow>
          request_loop req attempts ks (Some status)
            (if k < attempts then slept @ [350 * k] else slept)
      | Threw \<Rightarrow>
          request_loop req attempts ks lastStatus
            (if k < attempts then slept @ [350 * k] else slept))"

definition fetchDownloadWithRetry ::
  "bool \<Rightarrow> network \<Rightarrow> nat \<Rightarrow> bool \<Rightarrow> (error + fetched) \<times> nat list" where
  "fetchDownloadWithRetry configPreferCurl net attempts preferCurl =
     (case (if preferCurl \<and> configPreferCurl then curl net else None) of
        Some r \<Rightarrow> (Inr r, [])
      | None \<Rightarrow> request_loop (request net) attempts [1..<Suc attempts] None [])"

text \<open>An attempt that the retry loop does not accept: it threw, or its response is refused.\<close>

definition rejected :: "attempt \<Rightarrow> bool" where
  "rejected a =
     (case a of
        Threw \<Rightarrow> True
      | Unreadable status \<Rightarrow> True
      | Responded r \<Rightarrow> \<not> (response_ok r \<and> \<not> isJsonContentType (f_contentType r)))"

definition starts_with :: "string \<Rightarrow> string \<Rightarrow> bool" where
  "starts_with s p = (take (length p) s = p)"

definition extractFileId :: "url \<Rightarrow> string option" where
  "extractFileId u =
     (case nonempty_string (id_param u) of
        Some i \<Rightarrow> Some i
      | None \<Rightarrow>
          if starts_with (pathname u) ''/backend-api/files/download/''
          then nonempty_string (Some (last (split_on CHR ''/'' (pathname u))))
          else None)"


section \<open>Capture session\<close>

text \<open>
  A response as the session sees it: its URL, its \<open>content-type\<close> header, the file name in
  its \<open>content-disposition\<close> header (empty when there is none), its decoded JSON body
  (\<open>None\<close>: \<open>response.json()\<close> throws), the network that answers when the session fetches
  the download URL of this response, and whether the write of the file succeeds.
\<close>

record response =
  r_url :: url
  r_contentType :: string
  r_dispositionName :: string
  r_json :: "json_body option"
  r_net :: network
  r_write_ok :: bool

record config =
  timeoutMs :: nat
  idleMs :: nat
  maxFiles :: nat
  imageRun :: "image_run option"
  requireFinalImageFrame :: bool
  waitForConvoStreamCompleted :: bool
  ignoreFileNames :: "string list"
  outputDir :: string
  preferCurlDownloads :: bool

text \<open>
  The variables of \<open>collectChatGptDownloads\<close>.  A timer is \<open>None\<close> when it is not pending
  and \<open>Some t\<close> when it is set to fire at time \<open>t\<close>.  \<open>queue\<close> holds the responses that the
  listener has chained and that are not handled yet.
\<close>

record session =
  s_savedCount :: nat
  idleTimer :: "nat option"
  timeoutTimer :: "nat option"
  finished :: bool
  listening :: bool
  seen :: "string list"
  s_metadataIds :: "string list"
  s_savedFiles :: "saved_file list"
  s_streamEvents :: "stream_event list"
  queue :: "response list"
  sawImageStreamPartFrame :: bool
  sawImageFinalFrame :: bool
  convoStreamCompleted :: bool
  startedAt :: nat
  s_disk :: disk

definition isImageRun :: "config \<Rightarrow> bool" where
  "isImageRun cfg = (case imageRun cfg of None \<Rightarrow> False | Some run \<Rightarrow> generationMode run = ImageMode)"

definition isFileRun :: "config \<Rightarrow> bool" where
  "isFileRun cfg = (case imageRun cfg of None \<Rightarrow> False | Some run \<Rightarrow> generationMode run = FileMode)"

definition ignoredFileNameSet :: "config \<Rightarrow> string list" where
  "ignoredFileNameSet cfg =
     js_unique (filter (\<lambda>n. n \<noteq> []) (map (\<lambda>n. normalizeMatchFileName (Some n)) (ignoreFileNames cfg)))"

definition init_session :: "config \<Rightarrow> disk \<Rightarrow> session" where
  "init_session cfg d =
     \<lparr> s_savedCount = 0, idleTimer = None, timeoutTimer = Some (now d + timeoutMs cfg),
       finished = False, listening = True, seen = [], s_metadataIds = [], s_savedFiles = [],
       s_streamEvents = [], queue = [], sawImageStreamPartFrame = False,
       sawImageFinalFrame = False,
       convoStreamCompleted = (\<not> waitForConvoStreamCompleted cfg),
       startedAt = now d, s_disk = d \<rparr>"

definition emitStreamEvent :: "session \<Rightarrow> stream_event \<Rightarrow> session" where
  "emitStreamEvent s ev = s\<lparr> s_streamEvents := s_streamEvents s @ [ev] \<rparr>"

definition shouldIgnoreCapturedFile :: "config \<Rightarrow> string \<Rightarrow> string \<Rightarrow> bool" where
  "shouldIgnoreCapturedFile cfg name sourceName =
     (if ignoredFileNameSet cfg = [] then False
      else
        let normalizedFileName = normalizeMatchFileName (Some name);
            normalizedSourceFileName = normalizeMatchFileName (Some sourceName)
        in (normalizedFileName \<noteq> [] \<and> normalizedFileName \<in> set (ignoredFileNameSet cfg))
           \<or> (normalizedSourceFileName \<noteq> []
               \<and> normalizedSourceFileName \<in> set (ignoredFileNameSet cfg)))"

definition cleanup :: "session \<Rightarrow> session" where
  "cleanup s = s\<lparr> idleTimer := None, timeoutTimer := None, listening := False \<rparr>"

definition finish :: "session \<Rightarrow> session" where
  "finish s = (if finished s then s else cleanup (s\<lparr> finished := True \<rparr>))"

definition scheduleIdleCheck :: "config \<Rightarrow> session \<Rightarrow> session" where
  "scheduleIdleCheck cfg s =
     (let s1 = s\<lparr> idleTimer := None \<rparr>
      in if s_savedCount s1 = 0 then s1
         else if requireFinalImageFrame cfg \<and> sawImageStreamPartFrame s1 \<and> \<not> sawImageFinalFrame s1
         then s1
         else if requireFinalImageFrame cfg \<and> sawImageFinalFrame s1 \<and> \<not> convoStreamCompleted s1
         then s1
         else s1\<lparr> idleTimer := Some (now (s_disk s1) + idleMs cfg) \<rparr>)"

definition markConvoStreamCompleted :: "config \<Rightarrow> session \<Rightarrow> session" where
  "markConvoStreamCompleted cfg s =
     (if convoStreamCompleted s then s
      else
        let s1 = emitStreamEvent (s\<lparr> convoStreamCompleted := True \<rparr>)
                   (blank_event ConvoStreamCompleted ''ces_stream_event'')
        in if s_savedCount s1 = 0 then s1
           else if requireFinalImageFrame cfg \<and> sawImageStreamPartFrame s1
                   \<and> \<not> sawImageFinalFrame s1
           then s1
           else s1\<lparr> idleTimer := Some (now (s_disk s1) + min (max 600 (idleMs cfg)) 1500) \<rparr>)"

text \<open>\<open>v || null\<close> for a string.\<close>

definition or_null :: "string \<Rightarrow> string option" where
  "or_null v = (if v \<noteq> [] then Some v else None)"

text \<open>\<open>metadataIds.add(id)\<close> on the set of ids.\<close>

definition set_add :: "string list \<Rightarrow> string \<Rightarrow> string list" where
  "set_add xs x = (if x \<in> set xs then xs else xs @ [x])"

record event_meta =
  em_source :: string
  em_sourceFileName :: "string option"
  em_isStreamPart :: bool
  em_streamPartIndex :: "nat option"
  em_isFinalStreamFrame :: bool

text \<open>
  The pieces of \<open>handleFileBuffer\<close> after the write: the saved entry with the frame
  attributes of the event, the \<open>file_saved\<close> event, the bookkeeping (\<open>savedFiles\<close>, the two
  frame flags, \<open>metadataIds\<close>, \<open>savedCount\<close>) and the final choice between finishing,
  the short grace window and \<open>scheduleIdleCheck\<close>.
\<close>

definition with_frame_meta :: "saved_file \<Rightarrow> event_meta \<Rightarrow> saved_file" where
  "with_frame_meta saved meta =
     saved\<lparr> sourceFileName := nonempty_string (em_sourceFileName meta),
            isStreamPart := em_isStreamPart meta,
            streamPartIndex := em_streamPartIndex meta,
            isFinalStreamFrame := em_isFinalStreamFrame meta \<rparr>"

definition file_saved_event :: "event_meta \<Rightarrow> string option \<Rightarrow> string \<Rightarrow> saved_file \<Rightarrow> stream_event" where
  "file_saved_event meta mid ct savedEntry =
     (blank_event FileSaved (if em_source meta \<noteq> [] then em_source meta else ''stream_response''))
       \<lparr> e_metadataId := nonempty_string mid,
         e_contentType := or_null ct,
         e_fileName := or_null (fileName savedEntry),
         e_sourceFileName := sourceFileName savedEntry,
         e_outputPath := or_null (filePath savedEntry),
         e_byteLength := Some (byteLength savedEntry),
         e_isStreamPart := isStreamPart savedEntry,
         e_streamPartIndex := streamPartIndex savedEntry,
         e_isFinalStreamFrame := isFinalStreamFrame savedEntry \<rparr>"

definition note_saved_entry :: "config \<Rightarrow> session \<Rightarrow> saved_file \<Rightarrow> string option \<Rightarrow> session" where
  "note_saved_entry cfg s savedEntry mid =
     (let s2 = s\<lparr> s_savedFiles := s_savedFiles s @ [savedEntry] \<rparr>;
          s3 = (if requireFinalImageFrame cfg \<and> isImageRun cfg
                then s2\<lparr> sawImageStreamPartFrame :=
                            (sawImageStreamPartFrame s2 \<or> isStreamPart savedEntry),
                          sawImageFinalFrame :=
                            (sawImageFinalFrame s2 \<or> isFinalStreamFrame savedEntry) \<rparr>
                else s2);
          s4 = (case nonempty_string mid of
                  None \<Rightarrow> s3
                | Some i \<Rightarrow> s3\<lparr> s_metadataIds := set_add (s_metadataIds s3) i \<rparr>)
      in s4\<lparr> s_savedCount := s_savedCount s4 + 1 \<rparr>)"

definition arm_after_buffer :: "config \<Rightarrow> session \<Rightarrow> session" where
  "arm_after_buffer cfg s =
     (if s_savedCount s \<ge> maxFiles cfg then finish s
      else if requireFinalImageFrame cfg \<and> isImageRun cfg
              \<and> sawImageFinalFrame s \<and> convoStreamCompleted s
      then s\<lparr> idleTimer := Some (now (s_disk s) + min (max 500 (idleMs cfg)) 1500) \<rparr>
      else scheduleIdleCheck cfg s)"

text \<open>
  \<open>handleFileBuffer\<close>.  The result is \<open>Inl\<close> when \<open>saveBufferToDisk\<close> throws; the caller
  catches it.
\<close>

definition handleFileBuffer ::
  "config \<Rightarrow> session \<Rightarrow> bool \<Rightarrow> buffer \<Rightarrow> string \<Rightarrow> string \<Rightarrow> string option \<Rightarrow> event_meta
     \<Rightarrow> error + session" where
  "handleFileBuffer cfg s write_ok buf ct nameHint mid meta =
     (if shouldIgnoreCapturedFile cfg nameHint
           (case em_sourceFileName meta of Some n \<Rightarrow> n | None \<Rightarrow> [])
      then Inr (emitStreamEvent s
             ((blank_event FileIgnored (if em_source meta \<noteq> [] then em_source meta else ''stream_response''))
                \<lparr> e_metadataId := nonempty_string mid,
                  e_fileName := (if trim nameHint \<noteq> [] then Some (basename (trim nameHint)) else None),
                  e_sourceFileName :=
                    (case em_sourceFileName meta of
                       None \<Rightarrow> None
                     | Some n \<Rightarrow> if trim n \<noteq> [] then Some (basename (trim n)) else None),
                  e_reason := ''matches_upload_reference_name'' \<rparr>))
      else
        (case saveBufferToDisk (outputDir cfg) (imageRun cfg) (s_disk s) write_ok buf
                (if nameHint \<noteq> [] then nameHint else ''download-'' @ decimal (now (s_disk s)))
                ct mid of
           Inl e \<Rightarrow> Inl e
         | Inr (saved, d') \<Rightarrow>
             Inr (arm_after_buffer cfg
                    (note_saved_entry cfg
                       (emitStreamEvent (s\<lparr> s_disk := d' \<rparr>)
                          (file_saved_event meta mid ct (with_frame_meta saved meta)))
                       (with_frame_meta saved meta) mid))))"

text \<open>
  \<open>saveDownloadRecord\<close> for a record with a download URL and no buffer (the only records
  the engine builds): fetch, then save.  The slept delays of the fetch are dropped.
\<close>

definition saveDownloadRecord ::
  "config \<Rightarrow> disk \<Rightarrow> network \<Rightarrow> bool \<Rightarrow> url \<Rightarrow> string \<Rightarrow> string option
     \<Rightarrow> error + (save_result \<times> disk)" where
  "saveDownloadRecord cfg d net write_ok downloadUrl recordFileName recordMetadataId =
     (let mid = (case nonempty_string recordMetadataId of
                   Some i \<Rightarrow> Some i
                 | None \<Rightarrow> extractFileId downloadUrl)
      in case fst (fetchDownloadWithRetry (preferCurlDownloads cfg) net 4 (isFileRun cfg)) of
           Inl e \<Rightarrow> Inl e
         | Inr got \<Rightarrow>
             (case saveBufferToDisk (outputDir cfg) (imageRun cfg) d write_ok (f_buffer got)
                     (if recordFileName \<noteq> [] then recordFileName
                      else if f_fileName got \<noteq> [] then f_fileName got
                      else prefix_or (imageRun cfg) ''download'' @ ''-'' @ decimal (now d))
                     (f_contentType got) mid of
                Inl e \<Rightarrow> Inl e
              | Inr (saved, d') \<Rightarrow>
                  Inr (buildSaveResult 1 [saved] (case mid of Some i \<Rightarrow> [i] | None \<Rightarrow> []) [], d')))"

text \<open>The three branches of \<open>processResponse\<close>, after the scope test and the dedup.\<close>

definition save_failed_event :: "string \<Rightarrow> string option \<Rightarrow> string \<Rightarrow> stream_event" where
  "save_failed_event src mid ct =
     (blank_event SaveFailed src)\<lparr> e_metadataId := mid, e_contentType := or_null ct \<rparr>"

text \<open>The name under which the metadata branch saves, given what the fetch returned.\<close>

definition metadata_nameCandidate :: "config \<Rightarrow> session \<Rightarrow> string \<Rightarrow> fetched \<Rightarrow> string" where
  "metadata_nameCandidate cfg s metadataFileNameRaw got =
     (let shouldUseMetadataFileName =
            (metadataFileNameRaw \<noteq> []
             \<and> \<not> (isImageRun cfg \<and> isLikelyImageStreamPartName (Some metadataFileNameRaw)))
      in if shouldUseMetadataFileName then metadataFileNameRaw
         else if f_fileName got \<noteq> [] then basename (f_fileName got)
         else prefix_or (imageRun cfg) ''download'' @ ''-'' @ decimal (now (s_disk s)))"

text \<open>
  The metadata branch, in the order of the source: the body is decoded; an upload echo is
  ignored; the download URL is read; the frame is classified and announced; the bytes are
  fetched and handed to \<open>handleFileBuffer\<close>.  Every exception of the \<open>try\<close> block ends in
  the \<open>save_failed\<close> event of its \<open>catch\<close>.
\<close>

definition metadata_failed :: "session \<Rightarrow> response \<Rightarrow> session" where
  "metadata_failed s r =
     emitStreamEvent s
       (save_failed_event ''files_download_metadata'' (extractFileId (r_url r)) (r_contentType r))"

definition body_download_url :: "json_body \<Rightarrow> download_url_field" where
  "body_download_url body =
     (case body of BodyObject fileInfo \<Rightarrow> download_url fileInfo | BodyOther \<Rightarrow> NoDownloadUrl)"

definition metadataFileNameRaw :: "json_body \<Rightarrow> string" where
  "metadataFileNameRaw body =
     (case body of
        BodyObject fileInfo \<Rightarrow> (case file_name fileInfo of Some n \<Rightarrow> basename n | None \<Rightarrow> [])
      | BodyOther \<Rightarrow> [])"

definition metadata_id :: "response \<Rightarrow> url \<Rightarrow> string option" where
  "metadata_id r downloadUrl =
     (case extractFileId downloadUrl of Some i \<Rightarrow> Some i | None \<Rightarrow> extractFileId (r_url r))"

definition metadata_resolved_event :: "response \<Rightarrow> string option \<Rightarrow> frame_info \<Rightarrow> stream_event" where
  "metadata_resolved_event r mid frameInfo =
     (blank_event DownloadUrlResolved ''files_download_metadata'')
       \<lparr> e_metadataId := mid,
         e_sourceFileName := or_null (fi_fileName frameInfo),
         e_isStreamPart := isPart frameInfo,
         e_streamPartIndex := partIndex frameInfo,
         e_isFinalStreamFrame := isFinal frameInfo,
         e_contentType := or_null (r_contentType r) \<rparr>"

definition metadata_event_meta :: "frame_info \<Rightarrow> event_meta" where
  "metadata_event_meta frameInfo =
     \<lparr> em_source = ''files_download_metadata'',
       em_sourceFileName = or_null (fi_fileName frameInfo),
       em_isStreamPart = isPart frameInfo,
       em_streamPartIndex = partIndex frameInfo,
       em_isFinalStreamFrame = isFinal frameInfo \<rparr>"

definition metadata_fetch_and_save ::
  "config \<Rightarrow> session \<Rightarrow> response \<Rightarrow> string \<Rightarrow> string option \<Rightarrow> session" where
  "metadata_fetch_and_save cfg s1 r rawName mid =
     (case fst (fetchDownloadWithRetry (preferCurlDownloads cfg) (r_net r) 4 (isFileRun cfg)) of
        Inl _ \<Rightarrow> metadata_failed s1 r
      | Inr got \<Rightarrow>
          (case handleFileBuffer cfg s1 (r_write_ok r) (f_buffer got) (f_contentType got)
                  (metadata_nameCandidate cfg s1 rawName got) mid
                  (metadata_event_meta (parseImageStreamFrameInfo (Some rawName))) of
             Inl _ \<Rightarrow> metadata_failed s1 r
           | Inr s2 \<Rightarrow> s2))"

definition metadata_download :: "config \<Rightarrow> session \<Rightarrow> response \<Rightarrow> json_body \<Rightarrow> session" where
  "metadata_download cfg s r body =
     (case body_download_url body of
        NoDownloadUrl \<Rightarrow>
          emitStreamEvent s
            ((blank_event MetadataMissingDownloadUrl ''files_download_metadata'')
               \<lparr> e_metadataId := extractFileId (r_url r),
                 e_contentType := or_null (r_contentType r) \<rparr>)
      | NotAUrl _ \<Rightarrow> metadata_failed s r
      | DownloadUrl downloadUrl \<Rightarrow>
          metadata_fetch_and_save cfg
            (emitStreamEvent s
               (metadata_resolved_event r (metadata_id r downloadUrl)
                  (parseImageStreamFrameInfo (Some (metadataFileNameRaw body)))))
            r (metadataFileNameRaw body) (metadata_id r downloadUrl))"

definition upload_echo_event :: "response \<Rightarrow> stream_event" where
  "upload_echo_event r =
     (blank_event FileIgnored ''files_download_metadata'')
       \<lparr> e_metadataId := extractFileId (r_url r),
         e_reason := ''upload_echo_metadata_null_fields'' \<rparr>"

definition process_metadata :: "config \<Rightarrow> session \<Rightarrow> response \<Rightarrow> session" where
  "process_metadata cfg s r =
     (case r_json r of
        None \<Rightarrow> metadata_failed s r
      | Some body \<Rightarrow>
          if ignoredFileNameSet cfg \<noteq> [] \<and> isLikelyUploadEchoMetadata body
          then emitStreamEvent s (upload_echo_event r)
          else metadata_download cfg s r body)"

text \<open>The name hint of the direct branch.\<close>

definition direct_nameHint :: "config \<Rightarrow> session \<Rightarrow> response \<Rightarrow> string" where
  "direct_nameHint cfg s r =
     (if r_dispositionName r \<noteq> [] then basename (r_dispositionName r)
      else (case extractFileId (r_url r) of
              Some i \<Rightarrow> prefix_or (imageRun cfg) ''download'' @ ''-'' @ i
            | None \<Rightarrow> prefix_or (imageRun cfg) ''download'' @ ''-'' @ decimal (now (s_disk s))))"

definition direct_file_saved_event :: "response \<Rightarrow> saved_file \<Rightarrow> stream_event" where
  "direct_file_saved_event r f =
     (blank_event FileSaved ''download_response'')
       \<lparr> e_metadataId := extractFileId (r_url r),
         e_contentType := (if contentType f \<noteq> [] then Some (contentType f)
                           else or_null (r_contentType r)),
         e_fileName := or_null (fileName f),
         e_outputPath := or_null (filePath f),
         e_byteLength := Some (byteLength f) \<rparr>"

text \<open>
  The end of the direct branch: the sub-result \<open>next\<close> is added to the session, then the
  session finishes at the cap or schedules the idle check when something was saved.
\<close>

definition absorb_next :: "response \<Rightarrow> session \<Rightarrow> save_result \<Rightarrow> session" where
  "absorb_next r s next =
     (let s2 = s\<lparr> s_savedCount := s_savedCount s + savedCount next \<rparr>;
          s3 = foldl (\<lambda>acc f. emitStreamEvent (acc\<lparr> s_savedFiles := s_savedFiles acc @ [f] \<rparr>)
                                 (direct_file_saved_event r f))
                     s2 (savedFiles next)
      in s3\<lparr> s_metadataIds := foldl set_add (s_metadataIds s3)
                                  (filter (\<lambda>i. i \<noteq> []) (metadataIds next)) \<rparr>)"

definition arm_after_direct :: "config \<Rightarrow> session \<Rightarrow> nat \<Rightarrow> session" where
  "arm_after_direct cfg s nextSavedCount =
     (if s_savedCount s \<ge> maxFiles cfg then finish s
      else if nextSavedCount > 0 then scheduleIdleCheck cfg s
      else s)"

definition process_direct :: "config \<Rightarrow> session \<Rightarrow> response \<Rightarrow> session" where
  "process_direct cfg s r =
     (let responseFileId = extractFileId (r_url r);
          nameHint = direct_nameHint cfg s r
      in if shouldIgnoreCapturedFile cfg nameHint []
         then emitStreamEvent s
                ((blank_event FileIgnored ''download_response'')
                   \<lparr> e_metadataId := responseFileId, e_fileName := or_null nameHint,
                     e_reason := ''matches_upload_reference_name'' \<rparr>)
         else
           (case saveDownloadRecord cfg (s_disk s) (r_net r) (r_write_ok r) (r_url r)
                   nameHint responseFileId of
              Inl _ \<Rightarrow>
                arm_after_direct cfg
                  (absorb_next r
                     (emitStreamEvent s
                        (save_failed_event ''download_response'' responseFileId (r_contentType r)))
                     emptySaveResult) 0
            | Inr (next, d') \<Rightarrow>
                arm_after_direct cfg (absorb_next r (s\<lparr> s_disk := d' \<rparr>) next) (savedCount next)))"

definition estuary_nameHint :: "config \<Rightarrow> string \<Rightarrow> fetched \<Rightarrow> string" where
  "estuary_nameHint cfg itemId got =
     (if f_fileName got \<noteq> [] then basename (f_fileName got)
      else prefix_or (imageRun cfg) ''download'' @ ''-'' @ itemId)"

definition estuary_failed :: "session \<Rightarrow> response \<Rightarrow> session" where
  "estuary_failed s r =
     emitStreamEvent s (save_failed_event ''estuary_content'' None (r_contentType r))"

definition body_item :: "json_body \<Rightarrow> string option" where
  "body_item body =
     nonempty_string (case body of BodyObject data \<Rightarrow> item data | BodyOther \<Rightarrow> None)"

definition estuary_event_meta :: event_meta where
  "estuary_event_meta =
     \<lparr> em_source = ''estuary_content'', em_sourceFileName = None, em_isStreamPart = False,
       em_streamPartIndex = None, em_isFinalStreamFrame = False \<rparr>"

definition estuary_fetch_and_save :: "config \<Rightarrow> session \<Rightarrow> response \<Rightarrow> string \<Rightarrow> session" where
  "estuary_fetch_and_save cfg s1 r itemId =
     (case fst (fetchDownloadWithRetry (preferCurlDownloads cfg) (r_net r) 4 (isFileRun cfg)) of
        Inl _ \<Rightarrow> estuary_failed s1 r
      | Inr got \<Rightarrow>
          (case handleFileBuffer cfg s1 (r_write_ok r) (f_buffer got) (f_contentType got)
                  (estuary_nameHint cfg itemId got) (Some itemId) estuary_event_meta of
             Inl _ \<Rightarrow> estuary_failed s1 r
           | Inr s2 \<Rightarrow> s2))"

definition process_estuary :: "config \<Rightarrow> session \<Rightarrow> response \<Rightarrow> session" where
  "process_estuary cfg s r =
     (case r_json r of
        None \<Rightarrow> estuary_failed s r
      | Some body \<Rightarrow>
          (case body_item body of
             None \<Rightarrow>
               emitStreamEvent s
                 ((blank_event MetadataMissingItem ''estuary_content'')
                    \<lparr> e_contentType := or_null (r_contentType r) \<rparr>)
           | Some itemId \<Rightarrow>
               estuary_fetch_and_save cfg
                 (emitStreamEvent s
                    ((blank_event DownloadUrlResolved ''estuary_content'')
                       \<lparr> e_metadataId := Some itemId,
                         e_contentType := or_null (r_contentType r) \<rparr>))
                 r itemId))"

text \<open>The scope test and the dedup key of \<open>processResponse\<close>.\<close>

definition isEstuary :: "response \<Rightarrow> bool" where
  "isEstuary r = starts_with (pathname (r_url r)) ''/backend-api/estuary/content''"

definition isDownload :: "response \<Rightarrow> bool" where
  "isDownload r = starts_with (pathname (r_url r)) ''/backend-api/files/download/''"

definition in_scope :: "response \<Rightarrow> bool" where
  "in_scope r = (hostname (r_url r) = ''chatgpt.com'' \<and> (isEstuary r \<or> isDownload r))"

definition dedupeKey :: "response \<Rightarrow> string" where
  "dedupeKey r = (case extractFileId (r_url r) of Some i \<Rightarrow> i | None \<Rightarrow> href (r_url r))"

definition classify :: "config \<Rightarrow> session \<Rightarrow> response \<Rightarrow> session" where
  "classify cfg s r =
     (if isDownload r \<and> isJsonContentType (r_contentType r) then process_metadata cfg s r
      else if \<not> isJsonContentType (r_contentType r) then process_direct cfg s r
      else if isEstuary r \<and> isJsonContentType (r_contentType r) then process_estuary cfg s r
      else s)"

definition processResponse :: "config \<Rightarrow> session \<Rightarrow> response \<Rightarrow> session" where
  "processResponse cfg s r =
     (if hostname (r_url r) \<noteq> ''chatgpt.com'' then s
      else if \<not> isEstuary r \<and> \<not> isDownload r then s
      else if \<not> isImageRun cfg
      then (if dedupeKey r \<in> set (seen s) then s
            else classify cfg (s\<lparr> seen := seen s @ [dedupeKey r] \<rparr>) r)
      else classify cfg s r)"

text \<open>
  The session over time.  An input happens at a time; the clock moves to that time, a timer
  that is due fires, and then the input is handled: a response arrives at the listener, the
  head of the queue is handled to its end, or the stream-completed beacon is observed
  (within the window of \<open>waitForRequest\<close>).  A response is handled in one step, at the time
  its handling ends.
\<close>

datatype input = Arrives response | ProcessNext | Beacon | Tick

definition timer_due :: "nat option \<Rightarrow> nat \<Rightarrow> bool" where
  "timer_due timer t = (case timer of None \<Rightarrow> False | Some at \<Rightarrow> at \<le> t)"

definition fire_timers :: "session \<Rightarrow> nat \<Rightarrow> session" where
  "fire_timers s t =
     (let s1 = s\<lparr> s_disk := (s_disk s)\<lparr> now := max (now (s_disk s)) t \<rparr> \<rparr>;
          s2 = (if timer_due (timeoutTimer s1) (now (s_disk s1))
                then finish (s1\<lparr> timeoutTimer := None \<rparr>) else s1)
      in if timer_due (idleTimer s2) (now (s_disk s2))
         then finish (s2\<lparr> idleTimer := None \<rparr>) else s2)"

definition onResponse :: "session \<Rightarrow> response \<Rightarrow> session" where
  "onResponse s r =
     (if \<not> listening s \<or> finished s then s else s\<lparr> queue := queue s @ [r] \<rparr>)"

definition step :: "config \<Rightarrow> session \<Rightarrow> nat \<times> input \<Rightarrow> session" where
  "step cfg s ev =
     (let s1 = fire_timers s (fst ev)
      in case snd ev of
           Arrives r \<Rightarrow> onResponse s1 r
         | ProcessNext \<Rightarrow>
             (case queue s1 of
                [] \<Rightarrow> s1
              | r # rest \<Rightarrow> processResponse cfg (s1\<lparr> queue := rest \<rparr>) r)
         | Beacon \<Rightarrow>
             if waitForConvoStreamCompleted cfg
                \<and> now (s_disk s1) < startedAt s1 + timeoutMs cfg
             then markConvoStreamCompleted cfg s1 else s1
         | Tick \<Rightarrow> s1)"

definition run :: "config \<Rightarrow> session \<Rightarrow> (nat \<times> input) list \<Rightarrow> session" where
  "run cfg s trace = foldl (step cfg) s trace"

text \<open>\<open>await queue\<close>: every response still in the queue is handled, in order.\<close>

definition drain :: "config \<Rightarrow> session \<Rightarrow> session" where
  "drain cfg s = foldl (processResponse cfg) (s\<lparr> queue := [] \<rparr>) (queue s)"

definition latestPath :: "config \<Rightarrow> saved_file \<Rightarrow> string" where
  "latestPath cfg latestSaved =
     resolve_in (outputDir cfg) (applyExtension ''latest'' (extensionFromContentType (contentType latestSaved)))"

text \<open>
  \<open>copyFile\<close> throws when the source does not exist; \<open>copy_ok\<close> says whether it succeeds
  otherwise.  The exception is not caught: \<open>collectChatGptDownloads\<close> then rejects.
\<close>

definition copy_latest :: "config \<Rightarrow> bool \<Rightarrow> session \<Rightarrow> error + session" where
  "copy_latest cfg copy_ok s =
     (if s_savedFiles s = [] then Inr s
      else
        let latestSaved = last (s_savedFiles s)
        in if filePath latestSaved = latestPath cfg latestSaved then Inr s
           else (case files (s_disk s) (filePath latestSaved) of
                   None \<Rightarrow> Inl (CopyFailed (filePath latestSaved))
                 | Some b \<Rightarrow>
                     if \<not> copy_ok then Inl (CopyFailed (latestPath cfg latestSaved))
                     else
                       Inr (s\<lparr> s_disk := (s_disk s)\<lparr> files :=
                                  (files (s_disk s))(latestPath cfg latestSaved \<mapsto> b) \<rparr> \<rparr>)))"

text \<open>
  The polling loop \<open>checkFinished\<close>: it looks at \<open>finished\<close> and, while the session is not
  finished, sleeps 250 milliseconds and looks again.  Nothing else happens while it runs
  here, so only the timers can end it.  \<open>None\<close> is a loop that never ends.
\<close>

partial_function (option) checkFinished :: "session \<Rightarrow> session option" where
  "checkFinished s =
     (if finished s then Some s
      else checkFinished (fire_timers s (now (s_disk s) + 250)))"

declare checkFinished.simps [code]

text \<open>
  \<open>collectChatGptDownloads\<close> on a trace of inputs: the inputs of the trace happen, then the
  polling loop waits for the end of the session, the queue is drained, the latest file is
  copied and the aggregate is built.  The outer \<open>None\<close> is a call that never returns, \<open>Inl\<close>
  one that throws.
\<close>

definition session_at_end :: "config \<Rightarrow> disk \<Rightarrow> (nat \<times> input) list \<Rightarrow> session option" where
  "session_at_end cfg d trace =
     map_option (drain cfg) (checkFinished (run cfg (init_session cfg d) trace))"

definition collectChatGptDownloads ::
  "config \<Rightarrow> disk \<Rightarrow> bool \<Rightarrow> (nat \<times> input) list
     \<Rightarrow> (error + (save_result \<times> session)) option" where
  "collectChatGptDownloads cfg d copy_ok trace =
     (case session_at_end cfg d trace of
        None \<Rightarrow> None
      | Some s3 \<Rightarrow>
          Some (case copy_latest cfg copy_ok s3 of
                  Inl e \<Rightarrow> Inl e
                | Inr s4 \<Rightarrow>
                    let s5 = emitStreamEvent s4
                               ((blank_event CollectorComplete ''stream_collector'')
                                  \<lparr> e_savedCount := Some (s_savedCount s4) \<rparr>)
                    in Inr (buildSaveResult (s_savedCount s5) (s_savedFiles s5)
                              (s_metadataIds s5) (s_streamEvents s5), s5)))"


section \<open>Saving from a URL outside the capture session\<close>



section \<open>Invariants of a running session\<close>

text \<open>
  \<open>timers_inv\<close>: until the session is finished the hard timeout stays pending at the time
  fixed at the start and the listener stays attached; once it is finished the listener is
  detached and the hard timeout is cleared.  \<open>part_wait_inv\<close>: while the session runs with
  a part frame saved and no final frame saved, the idle timer is not pending.
  \<open>flags_inv\<close>: in a media session the two flags say what the saved files say.
  \<open>files_inv\<close>: every saved file is on disk, and the count is the number of saved files.
\<close>

definition timers_inv :: "config \<Rightarrow> session \<Rightarrow> bool" where
  "timers_inv cfg s =
     ((\<not> finished s \<longrightarrow> timeoutTimer s = Some (startedAt s + timeoutMs cfg) \<and> listening s)
      \<and> (finished s \<longrightarrow> \<not> listening s \<and> timeoutTimer s = None))"

definition part_wait_inv :: "config \<Rightarrow> session \<Rightarrow> bool" where
  "part_wait_inv cfg s =
     (\<not> finished s \<and> requireFinalImageFrame cfg \<and> sawImageStreamPartFrame s
        \<and> \<not> sawImageFinalFrame s \<longrightarrow> idleTimer s = None)"

definition flags_inv :: "config \<Rightarrow> session \<Rightarrow> bool" where
  "flags_inv cfg s =
     (if requireFinalImageFrame cfg \<and> isImageRun cfg
      then sawImageStreamPartFrame s = (\<exists>f \<in> set (s_savedFiles s). isStreamPart f)
           \<and> sawImageFinalFrame s = (\<exists>f \<in> set (s_savedFiles s). isFinalStreamFrame f)
      else \<not> sawImageStreamPartFrame s \<and> \<not> sawImageFinalFrame s)"

definition files_inv :: "session \<Rightarrow> bool" where
  "files_inv s =
     ((\<forall>f \<in> set (s_savedFiles s). files (s_disk s) (filePath f) \<noteq> None)
      \<and> length (s_savedFiles s) = s_savedCount s)"

text \<open>
  The elementary changes that handling one response makes to the session: an event is
  emitted; a buffer is written and noted by \<open>handleFileBuffer\<close>; the direct branch saves one
  file, or fails and saves none.
\<close>

inductive change :: "config \<Rightarrow> session \<Rightarrow> session \<Rightarrow> bool" for cfg :: config where
  emitted: "change cfg s (emitStreamEvent s ev)"
| buffer_saved:
    "saveBufferToDisk (outputDir cfg) (imageRun cfg) (s_disk s) w buf name ct mid = Inr (saved, d')
     \<Longrightarrow> change cfg s
           (arm_after_buffer cfg
              (note_saved_entry cfg (emitStreamEvent (s\<lparr> s_disk := d' \<rparr>) ev)
                 (with_frame_meta saved meta) mid))"
| direct_saved:
    "saveBufferToDisk (outputDir cfg) (imageRun cfg) (s_disk s) w buf name ct mid = Inr (saved, d')
     \<Longrightarrow> change cfg s
           (arm_after_direct cfg
              (absorb_next r (s\<lparr> s_disk := d' \<rparr>) (buildSaveResult 1 [saved] ids [])) 1)"
| direct_failed:
    "change cfg s (arm_after_direct cfg (absorb_next r s emptySaveResult) 0)"

definition session_inv :: "config \<Rightarrow> session \<Rightarrow> bool" where
  "session_inv cfg s = (timers_inv cfg s \<and> part_wait_inv cfg s \<and> flags_inv cfg s \<and> files_inv s)"


subsection \<open>Sessions to run\<close>

text \<open>
  A media session and a file session with small times, a caller that uploaded \<open>ref.png\<close>,
  and responses of the three shapes: a metadata envelope of a part frame, a metadata
  envelope without name and size, and a direct binary response.
\<close>

definition example_media_run :: image_run where
  "example_media_run =
     \<lparr> runId = ''r1'', randomizeFileNames = False, generationMode = ImageMode,
       filePrefix = ''image'' \<rparr>"

definition example_media_config :: config where
  "example_media_config =
     \<lparr> timeoutMs = 90, idleMs = 8, maxFiles = 100, imageRun = Some example_media_run,
       requireFinalImageFrame = True, waitForConvoStreamCompleted = True,
       ignoreFileNames = [''ref.png''], outputDir = ''/out'', preferCurlDownloads = True \<rparr>"

definition example_file_config :: config where
  "example_file_config =
     \<lparr> timeoutMs = 90, idleMs = 8, maxFiles = 8,
       imageRun = Some (example_media_run\<lparr> generationMode := FileMode, filePrefix := ''file'' \<rparr>),
       requireFinalImageFrame = False, waitForConvoStreamCompleted = False,
       ignoreFileNames = [], outputDir = ''/out'', preferCurlDownloads = True \<rparr>"

definition example_disk :: disk where
  "example_disk = \<lparr> files = Map.empty, nextFileIndex = 1, now = 0 \<rparr>"

definition example_png :: fetched where
  "example_png =
     \<lparr> f_buffer = ''PNG'', f_contentType = ''image/png'', f_status = 200, f_fileName = [] \<rparr>"

definition example_json :: fetched where
  "example_json =
     \<lparr> f_buffer = ''{}'', f_contentType = ''application/json'', f_status = 200, f_fileName = [] \<rparr>"

definition network_up :: network where
  "network_up = \<lparr> curl = None, request = (\<lambda>k. Responded example_png) \<rparr>"

definition network_down :: network where
  "network_down = \<lparr> curl = None, request = (\<lambda>k. Threw) \<rparr>"

definition network_curl_json :: network where
  "network_curl_json = \<lparr> curl = Some example_json, request = (\<lambda>k. Threw) \<rparr>"

definition example_metadata_url :: url where
  "example_metadata_url =
     \<lparr> href = ''https://chatgpt.com/backend-api/files/download/file-1'',
       hostname = ''chatgpt.com'', pathname = ''/backend-api/files/download/file-1'',
       id_param = None \<rparr>"

definition example_content_url :: url where
  "example_content_url =
     \<lparr> href = ''https://files.oaiusercontent.com/f?id=file-1'',
       hostname = ''files.oaiusercontent.com'', pathname = ''/f'', id_param = Some ''file-1'' \<rparr>"

definition example_body :: "string option \<Rightarrow> json_body" where
  "example_body remoteName =
     BodyObject \<lparr> download_url = DownloadUrl example_content_url, file_name = remoteName,
                  file_size_bytes = None, detail_message = None, item = None \<rparr>"

definition example_metadata_response :: "string option \<Rightarrow> network \<Rightarrow> response" where
  "example_metadata_response remoteName net =
     \<lparr> r_url = example_metadata_url, r_contentType = ''application/json'',
       r_dispositionName = [], r_json = Some (example_body remoteName), r_net = net,
       r_write_ok = True \<rparr>"

definition example_direct_response :: "string \<Rightarrow> network \<Rightarrow> response" where
  "example_direct_response dispositionName net =
     \<lparr> r_url = example_metadata_url, r_contentType = ''image/png'',
       r_dispositionName = dispositionName, r_json = None, r_net = net, r_write_ok = True \<rparr>"

definition example_part_trace :: "(nat \<times> input) list" where
  "example_part_trace =
     [(1, Arrives (example_metadata_response (Some ''x.part1.png'') network_up)),
      (2, ProcessNext)]"


section \<open>Properties of the merge\<close>

lemma set_add_all_append: "set_add_all s (xs @ ys) = set_add_all (set_add_all s xs) ys"
  by (induction xs arbitrary: s) auto

lemma set_set_add_all: "set (set_add_all s xs) = set s \<union> set xs"
  by (induction xs arbitrary: s) auto

lemma distinct_set_add_all: "distinct s \<Longrightarrow> distinct (set_add_all s xs)"
  by (induction xs arbitrary: s) auto

lemma set_add_all_nested: "set_add_all s (set_add_all t ys) = set_add_all (set_add_all s t) ys"
  by (induction ys arbitrary: t) (auto simp: set_add_all_append set_set_add_all)

lemma js_unique_append_left: "js_unique (js_unique xs @ ys) = js_unique (xs @ ys)"
  by (simp add: js_unique_def set_add_all_append set_add_all_nested)

lemma js_unique_append_right: "js_unique (xs @ js_unique ys) = js_unique (xs @ ys)"
  by (simp add: js_unique_def set_add_all_append set_add_all_nested)

lemma set_js_unique: "set (js_unique xs) = set xs"
  by (simp add: js_unique_def set_set_add_all)

lemma distinct_js_unique: "distinct (js_unique xs)"
  by (simp add: js_unique_def distinct_set_add_all)

lemma filter_truthy_js_unique:
  "filter (\<lambda>i. i \<noteq> []) (js_unique (filter (\<lambda>i. i \<noteq> []) xs))
     = js_unique (filter (\<lambda>i. i \<noteq> []) xs)"
  by (rule filter_True) (simp add: set_js_unique)

lemma build_ids_append_left:
  "js_unique (filter (\<lambda>i. i \<noteq> []) (js_unique (filter (\<lambda>i. i \<noteq> []) xs) @ ys))
     = js_unique (filter (\<lambda>i. i \<noteq> []) (xs @ ys))"
  by (simp add: filter_truthy_js_unique js_unique_append_left)

lemma build_ids_append_right:
  "js_unique (filter (\<lambda>i. i \<noteq> []) (xs @ js_unique (filter (\<lambda>i. i \<noteq> []) ys)))
     = js_unique (filter (\<lambda>i. i \<noteq> []) (xs @ ys))"
  by (simp add: filter_truthy_js_unique js_unique_append_right)

lemma build_ids_idem:
  "js_unique (filter (\<lambda>i. i \<noteq> []) (js_unique (filter (\<lambda>i. i \<noteq> []) xs)))
     = js_unique (filter (\<lambda>i. i \<noteq> []) xs)"
  using build_ids_append_left [of xs "[]"] by simp

lemma mset_build_ids:
  "mset (js_unique (filter (\<lambda>i. i \<noteq> []) xs)) = mset_set (set xs - {[]})"
proof -
  have "set (js_unique (filter (\<lambda>i. i \<noteq> []) xs)) = set xs - {[]}"
    by (auto simp: set_js_unique)
  moreover have "distinct (js_unique (filter (\<lambda>i. i \<noteq> []) xs))"
    by (rule distinct_js_unique)
  ultimately show ?thesis by (metis mset_set_set)
qed

text \<open>
  C9.  \<open>mergeSaveResults\<close> is associative: the two groupings of three SaveResults give the
  same aggregate.  A merge sums the counts, concatenates the saved files and the stream
  events in order, and holds each distinct non-empty metadata id of either side once.  The
  empty result \<open>buildSaveResult()\<close> is a left and a right identity on every SaveResult
  that \<open>buildSaveResult\<close> constructs.
\<close>

theorem mergeSaveResults_monoid:
  "mergeSaveResults (mergeSaveResults a (Some b)) (Some c)
     = mergeSaveResults a (Some (mergeSaveResults b (Some c)))
   \<and> savedCount (mergeSaveResults a (Some b)) = savedCount a + savedCount b
   \<and> savedFiles (mergeSaveResults a (Some b)) = savedFiles a @ savedFiles b
   \<and> streamEvents (mergeSaveResults a (Some b)) = streamEvents a @ streamEvents b
   \<and> mset (metadataIds (mergeSaveResults a (Some b)))
       = mset_set ((set (metadataIds a) \<union> set (metadataIds b)) - {[]})
   \<and> mergeSaveResults (buildSaveResult n fs ids evs) (Some emptySaveResult)
       = buildSaveResult n fs ids evs
   \<and> mergeSaveResults emptySaveResult (Some (buildSaveResult n fs ids evs))
       = buildSaveResult n fs ids evs"
  using build_ids_append_left [of "metadataIds a @ metadataIds b" "metadataIds c"]
        build_ids_append_right [of "metadataIds a" "metadataIds b @ metadataIds c"]
        mset_build_ids [of "metadataIds a @ metadataIds b"]
        build_ids_idem [of ids]
  by (simp add: mergeSaveResults_def buildSaveResult_def emptySaveResult_def js_unique_def)

section \<open>Properties of the frame classifier\<close>

lemma is_part_tag_length: "is_part_tag seg \<Longrightarrow> length seg = 5"
  by (auto simp: is_part_tag_def split: list.splits)

lemma is_part_tag_hd: "is_part_tag seg \<Longrightarrow> \<exists>t. seg = CHR ''.'' # t \<and> CHR ''.'' \<notin> set t"
  by (auto simp: is_part_tag_def split: list.splits)

lemma dot_not_digit: "\<not> is_digit CHR ''.''"
  by (simp add: is_digit_def)

lemma lookahead_ok_cases:
  "lookahead_ok rest \<longleftrightarrow> rest = [] \<or> (\<exists>ext. rest = CHR ''.'' # ext \<and> ext \<noteq> [] \<and> CHR ''.'' \<notin> set ext)"
  by (auto simp: lookahead_ok_def split: list.splits)

lemma lookahead_not_digit: "lookahead_ok (c # cs) \<Longrightarrow> \<not> is_digit c"
  by (auto simp: lookahead_ok_def dot_not_digit)

lemma drop_in_takeWhile:
  assumes "j < length (takeWhile P s)"
  shows "\<exists>t. drop j s = (s ! j) # t \<and> P (s ! j)"
proof -
  from assms have js: "j < length s"
    by (meson length_takeWhile_le less_le_trans)
  have "takeWhile P s ! j = s ! j" using assms by (rule takeWhile_nth)
  moreover have "takeWhile P s ! j \<in> set (takeWhile P s)" using assms by simp
  ultimately have "P (s ! j)" by (metis set_takeWhileD)
  with js show ?thesis by (metis Cons_nth_drop_Suc)
qed

lemma backtrack_digits_eq:
  "k \<le> length (takeWhile is_digit s) \<Longrightarrow>
   backtrack_digits k s =
     (if k = length (takeWhile is_digit s) \<and> 0 < k \<and> lookahead_ok (drop k s)
      then Some (take k s) else None)"
proof (induction k)
  case 0
  then show ?case by simp
next
  case (Suc k)
  show ?case
  proof (cases "Suc k = length (takeWhile is_digit s)")
    case True
    then have "k \<le> length (takeWhile is_digit s)" "k \<noteq> length (takeWhile is_digit s)" by simp_all
    with Suc.IH have "backtrack_digits k s = None" by simp
    then have "backtrack_digits (Suc k) s =
      (if lookahead_ok (drop (Suc k) s) then Some (take (Suc k) s) else None)" by simp
    with True show ?thesis by presburger
  next
    case False
    with Suc.prems have lt: "Suc k < length (takeWhile is_digit s)" by simp
    from drop_in_takeWhile [OF lt] obtain t where "drop (Suc k) s = (s ! Suc k) # t" "is_digit (s ! Suc k)"
      by blast
    then have "\<not> lookahead_ok (drop (Suc k) s)" using lookahead_not_digit by metis
    with Suc lt show ?thesis by simp
  qed
qed

lemma greedy_digits_eq:
  "backtrack_digits (length (takeWhile is_digit s)) s =
     (if takeWhile is_digit s \<noteq> [] \<and> lookahead_ok (dropWhile is_digit s)
      then Some (takeWhile is_digit s) else None)"
proof -
  have t: "take (length (takeWhile is_digit s)) s = takeWhile is_digit s"
    by (rule takeWhile_eq_take [symmetric])
  have d: "drop (length (takeWhile is_digit s)) s = dropWhile is_digit s"
    by (rule dropWhile_eq_drop [symmetric])
  show ?thesis
    using backtrack_digits_eq [of "length (takeWhile is_digit s)" s]
    by (simp add: t d)
qed

lemma takeWhile_digits_lookahead:
  assumes "list_all is_digit ds" "lookahead_ok rest"
  shows "takeWhile is_digit (ds @ rest) = ds \<and> dropWhile is_digit (ds @ rest) = rest"
proof -
  have "takeWhile is_digit rest = []" "dropWhile is_digit rest = rest"
    using assms(2) by (cases rest; auto dest: lookahead_not_digit)+
  with assms(1) show ?thesis
    by (simp add: list_all_iff takeWhile_append2 dropWhile_append2)
qed

lemma part_match_here_iff:
  "part_match_here s = Some ds \<longleftrightarrow>
     (\<exists>seg rest. s = seg @ ds @ rest \<and> is_part_tag seg \<and> ds \<noteq> [] \<and> list_all is_digit ds
                 \<and> lookahead_ok rest)"
proof
  assume m: "part_match_here s = Some ds"
  then have tag: "is_part_tag (take 5 s)"
    by (auto simp: part_match_here_def split: if_splits)
  with m have g: "takeWhile is_digit (drop 5 s) \<noteq> []" "lookahead_ok (dropWhile is_digit (drop 5 s))"
     "ds = takeWhile is_digit (drop 5 s)"
    by (auto simp: part_match_here_def greedy_digits_eq split: if_splits)
  have "s = take 5 s @ ds @ dropWhile is_digit (drop 5 s)"
    using g(3) by simp
  moreover have "list_all is_digit ds" using g(3) by (auto simp: list_all_iff dest: set_takeWhileD)
  ultimately show "\<exists>seg rest. s = seg @ ds @ rest \<and> is_part_tag seg \<and> ds \<noteq> [] \<and> list_all is_digit ds
                 \<and> lookahead_ok rest"
    using tag g by blast
next
  assume "\<exists>seg rest. s = seg @ ds @ rest \<and> is_part_tag seg \<and> ds \<noteq> [] \<and> list_all is_digit ds
                 \<and> lookahead_ok rest"
  then obtain seg rest where s: "s = seg @ ds @ rest" and tag: "is_part_tag seg" and ne: "ds \<noteq> []"
    and dg: "list_all is_digit ds" and la: "lookahead_ok rest" by blast
  from tag have l5: "length seg = 5" by (rule is_part_tag_length)
  with s have t: "take 5 s = seg" "drop 5 s = ds @ rest" by simp_all
  have tw: "takeWhile is_digit (ds @ rest) = ds" "dropWhile is_digit (ds @ rest) = rest"
    using takeWhile_digits_lookahead [OF dg la] by simp_all
  have "backtrack_digits (length (takeWhile is_digit (ds @ rest))) (ds @ rest) = Some ds"
    using ne la by (subst greedy_digits_eq) (simp add: tw)
  then show "part_match_here s = Some ds"
    using tag by (simp add: part_match_here_def t)
qed

lemma part_exec_SomeD:
  "part_exec s = Some ds \<Longrightarrow> \<exists>pre suf. s = pre @ suf \<and> part_match_here suf = Some ds
     \<and> (\<forall>k < length pre. part_match_here (drop k s) = None)"
proof (induction s)
  case Nil
  then show ?case by simp
next
  case (Cons c cs)
  show ?case
  proof (cases "part_match_here (c # cs)")
    case (Some d)
    with Cons.prems have "d = ds" by simp
    with Some have "c # cs = [] @ (c # cs) \<and> part_match_here (c # cs) = Some ds
      \<and> (\<forall>k < length ([]::string). part_match_here (drop k (c # cs)) = None)" by simp
    then show ?thesis by blast
  next
    case None
    with Cons.prems have "part_exec cs = Some ds" by simp
    from Cons.IH [OF this] obtain pre suf where ps: "cs = pre @ suf" "part_match_here suf = Some ds"
      "\<forall>k < length pre. part_match_here (drop k cs) = None" by blast
    have "\<forall>k < length (c # pre). part_match_here (drop k (c # cs)) = None"
    proof (intro allI impI)
      fix k assume "k < length (c # pre)"
      then show "part_match_here (drop k (c # cs)) = None"
        using None ps(3) by (cases k) auto
    qed
    with ps show ?thesis by (metis append_Cons)
  qed
qed

lemma part_exec_None_iff:
  "part_exec s = None \<longleftrightarrow> (\<forall>k. part_match_here (drop k s) = None)"
proof (induction s)
  case Nil
  then show ?case by (simp add: part_match_here_def is_part_tag_def)
next
  case (Cons c cs)
  show ?case
  proof
    assume n: "part_exec (c # cs) = None"
    then have h: "part_match_here (c # cs) = None" "part_exec cs = None"
      by (auto split: option.splits)
    with Cons.IH have "\<forall>k. part_match_here (drop k cs) = None" by simp
    with h(1) show "\<forall>k. part_match_here (drop k (c # cs)) = None"
      by (auto simp: drop_Cons split: nat.splits)
  next
    assume a: "\<forall>k. part_match_here (drop k (c # cs)) = None"
    then have "part_match_here (c # cs) = None" by (metis drop0)
    moreover have "\<forall>k. part_match_here (drop k cs) = None"
      using a by (metis drop_Suc_Cons)
    ultimately show "part_exec (c # cs) = None" using Cons.IH by simp
  qed
qed

lemma part_exec_leftmost:
  "part_match_here suf = Some ds \<Longrightarrow> (\<forall>k < length pre. part_match_here (drop k (pre @ suf)) = None)
   \<Longrightarrow> part_exec (pre @ suf) = Some ds"
proof (induction pre)
  case Nil
  then show ?case by (cases suf) (auto simp: part_match_here_def is_part_tag_def)
next
  case (Cons c pre)
  from Cons.prems(2) have "part_match_here (drop 0 ((c # pre) @ suf)) = None" by (metis length_greater_0_conv list.distinct(1))
  then have h: "part_match_here (c # pre @ suf) = None" by simp
  have "\<forall>k < length pre. part_match_here (drop k (pre @ suf)) = None"
  proof (intro allI impI)
    fix k assume "k < length pre"
    then have "Suc k < length (c # pre)" by simp
    with Cons.prems(2) have "part_match_here (drop (Suc k) ((c # pre) @ suf)) = None" by blast
    then show "part_match_here (drop k (pre @ suf)) = None" by simp
  qed
  with Cons.IH Cons.prems(1) have "part_exec (pre @ suf) = Some ds" by blast
  with h show ?case by simp
qed

lemma part_exec_Some_iff_segment:
  "(\<exists>ds. part_exec name = Some ds) \<longleftrightarrow> (\<exists>pre ds rest. part_segment_at name pre ds rest)"
proof
  assume "\<exists>ds. part_exec name = Some ds"
  then obtain ds where "part_exec name = Some ds" by blast
  from part_exec_SomeD [OF this] obtain pre suf where "name = pre @ suf" "part_match_here suf = Some ds"
    by blast
  then show "\<exists>pre ds rest. part_segment_at name pre ds rest"
    unfolding part_segment_at_def part_match_here_iff by blast
next
  assume "\<exists>pre ds rest. part_segment_at name pre ds rest"
  then obtain pre ds rest seg where n: "name = pre @ seg @ ds @ rest" and
    r: "is_part_tag seg" "ds \<noteq> []" "list_all is_digit ds" "lookahead_ok rest"
    unfolding part_segment_at_def by blast
  from r have "part_match_here (seg @ ds @ rest) = Some ds" unfolding part_match_here_iff by blast
  then have "part_match_here (drop (length pre) name) = Some ds" using n by simp
  then have "part_exec name \<noteq> None" unfolding part_exec_None_iff by (metis option.distinct(1))
  then show "\<exists>ds. part_exec name = Some ds" by blast
qed


lemma digits_no_dot: "list_all is_digit ds \<Longrightarrow> CHR ''.'' \<notin> set ds"
  using dot_not_digit by (auto simp: list_all_iff)

lemma lookahead_dotless: "lookahead_ok rest \<Longrightarrow> CHR ''.'' \<notin> set rest \<Longrightarrow> rest = []"
  by (auto simp: lookahead_ok_def split: list.splits)

lemma no_earlier_match:
  assumes n: "name = pre @ seg @ ds @ rest" and tag: "is_part_tag seg"
    and dg: "list_all is_digit ds" and la: "lookahead_ok rest"
    and k: "k < length pre" and m: "part_match_here (drop k name) = Some ds'"
  shows "rest = [] \<and> part_segment_at pre (take k pre) ds' []"
proof -
  define u where "u = drop k pre"
  have une: "u \<noteq> []" using k by (simp add: u_def)
  have dk: "drop k name = u @ seg @ ds @ rest" using n k by (simp add: u_def)
  from m obtain seg' rest' where e: "u @ seg @ ds @ rest = seg' @ ds' @ rest'"
    and tag': "is_part_tag seg'" and ne': "ds' \<noteq> []" and dg': "list_all is_digit ds'"
    and la': "lookahead_ok rest'"
    unfolding part_match_here_iff dk by metis
  from is_part_tag_hd [OF tag] obtain t where seg: "seg = CHR ''.'' # t" by blast
  from is_part_tag_hd [OF tag'] obtain t' where seg': "seg' = CHR ''.'' # t'" "CHR ''.'' \<notin> set t'"
    by blast
  define w where "w = seg' @ ds'"
  have w: "w = CHR ''.'' # (t' @ ds')" by (simp add: w_def seg')
  have wd: "CHR ''.'' \<notin> set (t' @ ds')" using seg'(2) digits_no_dot [OF dg'] by simp
  from e have "u @ (seg @ ds @ rest) = w @ rest'" by (simp add: w_def)
  then obtain us where
    "(u = w @ us \<and> us @ (seg @ ds @ rest) = rest') \<or> (u @ us = w \<and> seg @ ds @ rest = us @ rest')"
    unfolding append_eq_append_conv2 by blast
  then have key: "u = w \<and> rest' = seg @ ds @ rest"
  proof (elim disjE conjE)
    assume a: "u = w @ us" "us @ (seg @ ds @ rest) = rest'"
    show ?thesis
    proof (cases us)
      case Nil
      with a show ?thesis by simp
    next
      case (Cons c cs)
      with a(2) have "rest' = c # (cs @ CHR ''.'' # t @ ds @ rest)" by (simp add: seg)
      with la' show ?thesis by (simp add: lookahead_ok_def)
    qed
  next
    assume b: "u @ us = w" "seg @ ds @ rest = us @ rest'"
    show ?thesis
    proof (cases us)
      case Nil
      with b show ?thesis by simp
    next
      case (Cons c cs)
      with b(2) have "c = CHR ''.''" by (simp add: seg)
      moreover have "set us \<subseteq> set (t' @ ds')"
      proof (cases u)
        case Nil
        with une show ?thesis by simp
      next
        case (Cons d u')
        with b(1) have "u' @ us = t' @ ds'" unfolding w by simp
        then have "set (u' @ us) = set (t' @ ds')" by simp
        then show ?thesis by auto
      qed
      ultimately show ?thesis using wd Cons by auto
    qed
  qed
  then have "rest' = CHR ''.'' # (t @ ds @ rest)" by (simp add: seg)
  with la' have "CHR ''.'' \<notin> set rest" by (simp add: lookahead_ok_def)
  with la have r: "rest = []" by (rule lookahead_dotless)
  have "pre = take k pre @ u" by (simp add: u_def)
  with key have "pre = take k pre @ seg' @ ds' @ []" by (simp add: w_def)
  with tag' ne' dg' have "part_segment_at pre (take k pre) ds' []"
    unfolding part_segment_at_def by (auto simp: lookahead_ok_def)
  with r show ?thesis by simp
qed

lemma part_exec_of_segment:
  assumes "part_segment_at name pre ds rest"
    and "rest \<noteq> [] \<or> \<not> (\<exists>pre0 ds0. part_segment_at pre pre0 ds0 [])"
  shows "part_exec name = Some ds"
proof -
  from assms(1) obtain seg where n: "name = pre @ seg @ ds @ rest" and tag: "is_part_tag seg"
    and ne: "ds \<noteq> []" and dg: "list_all is_digit ds" and la: "lookahead_ok rest"
    unfolding part_segment_at_def by blast
  have here: "part_match_here (seg @ ds @ rest) = Some ds"
    unfolding part_match_here_iff using tag ne dg la by blast
  have "\<forall>k < length pre. part_match_here (drop k (pre @ seg @ ds @ rest)) = None"
  proof (intro allI impI)
    fix k assume k: "k < length pre"
    show "part_match_here (drop k (pre @ seg @ ds @ rest)) = None"
    proof (cases "part_match_here (drop k (pre @ seg @ ds @ rest))")
      case None
      then show ?thesis .
    next
      case (Some ds')
      then have "part_match_here (drop k name) = Some ds'" by (simp only: n)
      from no_earlier_match [OF n tag dg la k this] assms(2) show ?thesis by blast
    qed
  qed
  from part_exec_leftmost [OF here this] show ?thesis by (simp only: n)
qed

lemma part_exec_of_double_segment:
  assumes "part_segment_at name pre ds []" and "part_segment_at pre pre0 ds0 []"
  shows "part_exec name = Some ds0"
proof -
  from assms(1) obtain seg where n: "name = pre @ seg @ ds" and tag: "is_part_tag seg"
    and ne: "ds \<noteq> []" and dg: "list_all is_digit ds"
    unfolding part_segment_at_def by auto
  from assms(2) obtain seg0 where p: "pre = pre0 @ seg0 @ ds0" and tag0: "is_part_tag seg0"
    and ne0: "ds0 \<noteq> []" and dg0: "list_all is_digit ds0"
    unfolding part_segment_at_def by auto
  from is_part_tag_hd [OF tag] obtain t where seg: "seg = CHR ''.'' # t" "CHR ''.'' \<notin> set t" by blast
  have "lookahead_ok (seg @ ds)"
    using seg ne digits_no_dot [OF dg] by (simp add: lookahead_ok_def)
  with n p tag0 ne0 dg0 have "part_segment_at name pre0 ds0 (seg @ ds)"
    unfolding part_segment_at_def by auto
  moreover have "seg @ ds \<noteq> []" using ne by simp
  ultimately show ?thesis using part_exec_of_segment by blast
qed

declare bit_length.simps [simp del]

lemma bit_length_le: "n < 2 ^ k \<Longrightarrow> bit_length n \<le> k"
proof (induction k arbitrary: n)
  case 0
  then show ?case by (subst bit_length.simps) simp
next
  case (Suc k)
  then have "n div 2 < 2 ^ k" by simp
  with Suc.IH have "bit_length (n div 2) \<le> k" by blast
  then show ?case by (subst bit_length.simps) simp
qed

lemma to_double_exact: "n < 2 ^ 53 \<Longrightarrow> to_double n = Some n"
  using bit_length_le [of n 53] by (simp add: to_double_def)


lemma parse_name_cases:
  "fi_fileName (parseImageStreamFrameInfo v) = [] \<Longrightarrow>
     parseImageStreamFrameInfo v = \<lparr> fi_fileName = [], isPart = False, partIndex = None, isFinal = False \<rparr>"
  "fi_fileName (parseImageStreamFrameInfo v) \<noteq> [] \<Longrightarrow>
     parseImageStreamFrameInfo v =
       (case part_exec (fi_fileName (parseImageStreamFrameInfo v)) of
          None \<Rightarrow> \<lparr> fi_fileName = fi_fileName (parseImageStreamFrameInfo v), isPart = False,
                    partIndex = None, isFinal = True \<rparr>
        | Some ds \<Rightarrow> \<lparr> fi_fileName = fi_fileName (parseImageStreamFrameInfo v), isPart = True,
                       partIndex = to_double (digits_value ds), isFinal = False \<rparr>)"
  by (auto simp: parseImageStreamFrameInfo_def Let_def split: option.splits if_splits)

lemma isLikely_eq_isPart: "isLikelyImageStreamPartName v = isPart (parseImageStreamFrameInfo v)"
  by (auto simp: parseImageStreamFrameInfo_def isLikelyImageStreamPartName_def Let_def part_match_here_def is_part_tag_def
      split: option.splits if_splits)

lemma basename_Nil: "basename [] = []"
  by (simp add: basename_def)

lemma parse_fileName:
  "fi_fileName (parseImageStreamFrameInfo v) = (case v of None \<Rightarrow> [] | Some s \<Rightarrow> basename (trim s))"
  by (simp add: parseImageStreamFrameInfo_def Let_def basename_Nil split: option.splits)

text \<open>
  C4 (as amended).  Let \<open>name\<close> be the base name of the trimmed input, and the empty string
  when the input is not a string.  The classifier returns \<open>name\<close> as the file name.  It
  marks the input as a stream part exactly when \<open>name\<close> contains a case-insensitive
  \<open>.part<digits>\<close> segment immediately before the final extension or at the end; the part
  index is then the number written by the digits of that segment (of the one before the
  final extension when the name ends in two such segments), exact below \<open>2^53\<close>.  It marks
  the input as final exactly when \<open>name\<close> is not empty and has no such segment.  So an
  input without a name, a blank one and one whose base name is empty are marked neither
  part nor final.  \<open>isPart\<close> and \<open>isFinal\<close> are never both true, and
  \<open>isLikelyImageStreamPartName\<close> agrees with \<open>isPart\<close>.
\<close>

theorem parseImageStreamFrameInfo_classifies:
  assumes "info = parseImageStreamFrameInfo v"
    and "name = (case v of None \<Rightarrow> [] | Some s \<Rightarrow> basename (trim s))"
  shows "fi_fileName info = name
    \<and> (isPart info \<longleftrightarrow> (\<exists>pre ds rest. part_segment_at name pre ds rest))
    \<and> (isFinal info \<longleftrightarrow> name \<noteq> [] \<and> \<not> (\<exists>pre ds rest. part_segment_at name pre ds rest))
    \<and> \<not> (isPart info \<and> isFinal info)
    \<and> (\<not> isPart info \<longrightarrow> partIndex info = None)
    \<and> (part_segment_at name pre ds rest
          \<and> (rest \<noteq> [] \<or> \<not> (\<exists>pre0 ds0. part_segment_at pre pre0 ds0 []))
        \<longrightarrow> partIndex info = to_double (digits_value ds)
            \<and> (digits_value ds < 2 ^ 53 \<longrightarrow> partIndex info = Some (digits_value ds)))
    \<and> isLikelyImageStreamPartName v = isPart info"
proof -
  have n: "fi_fileName info = name"
    unfolding assms by (rule parse_fileName)
  show ?thesis
  proof (cases "name = []")
    case True
    with n assms(1) have i: "info = \<lparr> fi_fileName = [], isPart = False, partIndex = None, isFinal = False \<rparr>"
      using parse_name_cases(1) by simp
    have "\<not> (\<exists>pre ds rest. part_segment_at name pre ds rest)"
      using True by (auto simp: part_segment_at_def)
    with i True assms(1) isLikely_eq_isPart [of v] show ?thesis by simp
  next
    case False
    then have ne: "fi_fileName (parseImageStreamFrameInfo v) \<noteq> []" using n assms(1) by simp
    have i: "info = (case part_exec name of
            None \<Rightarrow> \<lparr> fi_fileName = name, isPart = False, partIndex = None, isFinal = True \<rparr>
          | Some ds \<Rightarrow> \<lparr> fi_fileName = name, isPart = True,
                         partIndex = to_double (digits_value ds), isFinal = False \<rparr>)"
      unfolding n [symmetric] unfolding assms(1) by (rule parse_name_cases(2) [OF ne])
    have p: "isPart info \<longleftrightarrow> (\<exists>ds. part_exec name = Some ds)"
      by (simp add: i split: option.splits)
    have seg: "partIndex info = to_double (digits_value ds)
        \<and> (digits_value ds < 2 ^ 53 \<longrightarrow> partIndex info = Some (digits_value ds))"
      if "part_segment_at name pre ds rest"
         "rest \<noteq> [] \<or> \<not> (\<exists>pre0 ds0. part_segment_at pre pre0 ds0 [])"
    proof -
      from part_exec_of_segment [OF that] have "part_exec name = Some ds" .
      then show ?thesis by (simp add: i to_double_exact)
    qed
    have f: "isFinal info = (\<not> isPart info)" by (simp add: i split: option.splits)
    have x: "\<not> isPart info \<longrightarrow> partIndex info = None" by (simp add: i split: option.splits)
    show ?thesis
      using False n p f x seg isLikely_eq_isPart [of v] assms(1)
      unfolding part_exec_Some_iff_segment by blast
  qed
qed

theorem parseImageStreamFrameInfo_classifies_witness:
  "isPart (parseImageStreamFrameInfo (Some ''x.part2.png''))
   \<and> \<not> isFinal (parseImageStreamFrameInfo (Some ''x.part2.png''))
   \<and> partIndex (parseImageStreamFrameInfo (Some ''x.part2.png'')) = Some 2
   \<and> isFinal (parseImageStreamFrameInfo (Some '' out/x.png ''))
   \<and> fi_fileName (parseImageStreamFrameInfo (Some '' out/x.png '')) = ''x.png''
   \<and> isLikelyImageStreamPartName (Some ''x.part2.png'')"
proof -
  have n: "(case Some ''x.part2.png'' of None \<Rightarrow> [] | Some s \<Rightarrow> basename (trim s)) = ''x.part2.png''"
    by code_simp
  have s: "part_segment_at ''x.part2.png'' ''x'' ''2'' ''.png''"
    unfolding part_segment_at_def
    by (rule exI [of _ "''.part''"]) (simp add: is_part_tag_def is_digit_def lookahead_ok_def)
  have d: "digits_value ''2'' = 2" by (simp add: digits_value_def)
  have a: "isPart (parseImageStreamFrameInfo (Some ''x.part2.png''))
   \<and> \<not> isFinal (parseImageStreamFrameInfo (Some ''x.part2.png''))
   \<and> partIndex (parseImageStreamFrameInfo (Some ''x.part2.png'')) = Some 2
   \<and> isLikelyImageStreamPartName (Some ''x.part2.png'')"
    using parseImageStreamFrameInfo_classifies
         [of "parseImageStreamFrameInfo (Some ''x.part2.png'')" "Some ''x.part2.png''"
             "''x.part2.png''" "''x''" "''2''" "''.png''", OF refl n [symmetric]]
       s d
    by auto
  have m: "(case Some '' out/x.png '' of None \<Rightarrow> [] | Some s \<Rightarrow> basename (trim s)) = ''x.png''"
    by code_simp
  have e: "part_exec ''x.png'' = None" by code_simp
  then have ns: "\<not> (\<exists>pre ds rest. part_segment_at ''x.png'' pre ds rest)"
    using part_exec_Some_iff_segment [of "''x.png''"] by simp
  have b: "isFinal (parseImageStreamFrameInfo (Some '' out/x.png ''))
   \<and> fi_fileName (parseImageStreamFrameInfo (Some '' out/x.png '')) = ''x.png''"
    using parseImageStreamFrameInfo_classifies
         [of "parseImageStreamFrameInfo (Some '' out/x.png '')" "Some '' out/x.png ''"
             "''x.png''", OF refl m [symmetric]]
       ns
    by blast
  from a b show ?thesis by blast
qed

text \<open>
  C4 as stated fails: without a name (a value that is not a string, a blank string, or a
  string whose base name is empty) the classifier does not mark the frame final.
\<close>

theorem parseImageStreamFrameInfo_absent_name_counterexample:
  "isFinal (parseImageStreamFrameInfo None) = False
   \<and> isFinal (parseImageStreamFrameInfo (Some ''  '')) = False
   \<and> isFinal (parseImageStreamFrameInfo (Some ''/'')) = False"
  by (simp add: parseImageStreamFrameInfo_def trim_def is_ws_def basename_def)

section \<open>Properties of the result reducer\<close>
















lemma collect_existing_Nil_iff:
  "collect_existing fs vis cs = [] \<longleftrightarrow>
     (\<forall>c \<in> set cs. c_filePath c = [] \<or> c_filePath c \<in> set vis \<or> \<not> existsSync fs (c_filePath c))"
  by (induction cs arbitrary: vis) auto




lemma existing_Nil_iff:
  "existingCandidates fs ord = [] \<longleftrightarrow>
     (\<forall>c \<in> set ord. c_filePath c = [] \<or> \<not> existsSync fs (c_filePath c))"
  by (simp add: existingCandidates_def collect_existing_Nil_iff)


subsection \<open>The loop over the candidates and the wording of the specification\<close>




subsection \<open>The cleanup\<close>

lemma unlink_quietly_fields [simp]:
  "file_of (unlink_quietly v p) = file_of v"
  "unlink_refused (unlink_quietly v p) = unlink_refused v"
  "stored (unlink_quietly v p) q
     = (if file_of v p = q \<and> \<not> unlink_refused v p then None else stored v q)"
  by (auto simp: unlink_quietly_def unlink_def existsSync_def)




lemma pushCandidate_grows:
  "\<exists>extra. pushCandidate m acc a = acc @ extra \<and> (\<forall>c \<in> set extra. c_filePath c \<noteq> [])"
  by (auto simp: pushCandidate_def Let_def split: option.splits)

lemma pushCandidate_file:
  "trim (filePath f) \<noteq> [] \<Longrightarrow> pushCandidate m acc (push_arg_of_file f) \<noteq> []"
  by (auto simp: pushCandidate_def push_arg_of_file_def Let_def)


lemma foldl_push_files:
  "\<exists>extra. foldl (\<lambda>acc f. pushCandidate m acc (push_arg_of_file f)) acc fs = acc @ extra
           \<and> (\<forall>c \<in> set extra. c_filePath c \<noteq> [])"
proof (induction fs arbitrary: acc)
  case Nil
  then show ?case by simp
next
  case (Cons f fs)
  from pushCandidate_grows [of m acc "push_arg_of_file f"] obtain e1 where
    e1: "pushCandidate m acc (push_arg_of_file f) = acc @ e1" "\<forall>c \<in> set e1. c_filePath c \<noteq> []" by blast
  from Cons.IH [of "acc @ e1"] obtain e2 where
    e2: "foldl (\<lambda>acc f. pushCandidate m acc (push_arg_of_file f)) (acc @ e1) fs = (acc @ e1) @ e2"
        "\<forall>c \<in> set e2. c_filePath c \<noteq> []" by blast
  from e1 e2 have "foldl (\<lambda>acc f. pushCandidate m acc (push_arg_of_file f)) acc (f # fs) = acc @ (e1 @ e2)
      \<and> (\<forall>c \<in> set (e1 @ e2). c_filePath c \<noteq> [])" by auto
  then show ?case by blast
qed



lemma trim_Nil: "trim [] = []"
  by (simp add: trim_def)

lemma ordered_nonempty:
  assumes "f \<in> set (savedFiles sr)" and "trim (filePath f) \<noteq> []"
  shows "orderedCandidates sr \<noteq> []"
proof -
  define m where "m = frameInfoByMetadataId (scan_events (streamEvents sr))"
  have grow: "acc \<noteq> [] \<Longrightarrow> foldl (\<lambda>acc f. pushCandidate m acc (push_arg_of_file f)) acc fs \<noteq> []"
    for acc fs
    using foldl_push_files [of m acc fs] by auto
  have hit: "f \<in> set fs \<Longrightarrow> foldl (\<lambda>acc f. pushCandidate m acc (push_arg_of_file f)) acc fs \<noteq> []"
    for acc fs
  proof (induction fs arbitrary: acc)
    case Nil
    then show ?case by simp
  next
    case (Cons g fs)
    show ?case
    proof (cases "g = f")
      case True
      with assms(2) have "pushCandidate m acc (push_arg_of_file g) \<noteq> []"
        using pushCandidate_file by simp
      then show ?thesis using grow by simp
    next
      case False
      with Cons.prems have "f \<in> set fs" by simp
      from Cons.IH [OF this] show ?thesis by simp
    qed
  qed
  from assms have "filePath f \<noteq> []" using trim_Nil by metis
  with assms(1) have "f \<in> set (filter (\<lambda>f. filePath f \<noteq> []) (savedFiles sr))" by simp
  from hit [OF this] show ?thesis
    by (simp add: orderedCandidates_def Let_def m_def)
qed






section \<open>The session step by step\<close>

subsection \<open>What each helper changes\<close>

lemma finish_fields [simp]:
  "s_savedCount (finish s) = s_savedCount s" "s_savedFiles (finish s) = s_savedFiles s"
  "s_disk (finish s) = s_disk s" "seen (finish s) = seen s" "s_metadataIds (finish s) = s_metadataIds s"
  "s_streamEvents (finish s) = s_streamEvents s" "queue (finish s) = queue s"
  "sawImageStreamPartFrame (finish s) = sawImageStreamPartFrame s"
  "sawImageFinalFrame (finish s) = sawImageFinalFrame s"
  "convoStreamCompleted (finish s) = convoStreamCompleted s" "startedAt (finish s) = startedAt s"
  "finished (finish s)"
  by (simp_all add: finish_def cleanup_def)

lemma finish_timers:
  "\<not> finished s \<Longrightarrow> idleTimer (finish s) = None \<and> timeoutTimer (finish s) = None \<and> \<not> listening (finish s)"
  "finished s \<Longrightarrow> finish s = s"
  by (simp_all add: finish_def cleanup_def)

lemma schedule_fields [simp]:
  "s_savedCount (scheduleIdleCheck cfg s) = s_savedCount s" "s_savedFiles (scheduleIdleCheck cfg s) = s_savedFiles s"
  "s_disk (scheduleIdleCheck cfg s) = s_disk s" "seen (scheduleIdleCheck cfg s) = seen s"
  "s_metadataIds (scheduleIdleCheck cfg s) = s_metadataIds s"
  "s_streamEvents (scheduleIdleCheck cfg s) = s_streamEvents s" "queue (scheduleIdleCheck cfg s) = queue s"
  "sawImageStreamPartFrame (scheduleIdleCheck cfg s) = sawImageStreamPartFrame s"
  "sawImageFinalFrame (scheduleIdleCheck cfg s) = sawImageFinalFrame s"
  "convoStreamCompleted (scheduleIdleCheck cfg s) = convoStreamCompleted s" "startedAt (scheduleIdleCheck cfg s) = startedAt s"
  "finished (scheduleIdleCheck cfg s) = finished s" "listening (scheduleIdleCheck cfg s) = listening s"
  "timeoutTimer (scheduleIdleCheck cfg s) = timeoutTimer s"
  by (simp_all add: scheduleIdleCheck_def Let_def)

lemma schedule_idle:
  "requireFinalImageFrame cfg \<Longrightarrow> sawImageStreamPartFrame s \<Longrightarrow> \<not> sawImageFinalFrame s
     \<Longrightarrow> idleTimer (scheduleIdleCheck cfg s) = None"
  by (simp add: scheduleIdleCheck_def Let_def)

lemma emit_fields [simp]:
  "s_savedCount (emitStreamEvent s ev) = s_savedCount s" "s_savedFiles (emitStreamEvent s ev) = s_savedFiles s"
  "s_disk (emitStreamEvent s ev) = s_disk s" "seen (emitStreamEvent s ev) = seen s"
  "s_metadataIds (emitStreamEvent s ev) = s_metadataIds s"
  "s_streamEvents (emitStreamEvent s ev) = s_streamEvents s @ [ev]" "queue (emitStreamEvent s ev) = queue s"
  "sawImageStreamPartFrame (emitStreamEvent s ev) = sawImageStreamPartFrame s"
  "sawImageFinalFrame (emitStreamEvent s ev) = sawImageFinalFrame s"
  "convoStreamCompleted (emitStreamEvent s ev) = convoStreamCompleted s" "startedAt (emitStreamEvent s ev) = startedAt s"
  "finished (emitStreamEvent s ev) = finished s" "listening (emitStreamEvent s ev) = listening s"
  "timeoutTimer (emitStreamEvent s ev) = timeoutTimer s" "idleTimer (emitStreamEvent s ev) = idleTimer s"
  by (simp_all add: emitStreamEvent_def)

lemma note_fields [simp]:
  "s_savedCount (note_saved_entry cfg s e mid) = s_savedCount s + 1"
  "s_savedFiles (note_saved_entry cfg s e mid) = s_savedFiles s @ [e]"
  "s_disk (note_saved_entry cfg s e mid) = s_disk s" "seen (note_saved_entry cfg s e mid) = seen s"
  "s_streamEvents (note_saved_entry cfg s e mid) = s_streamEvents s" "queue (note_saved_entry cfg s e mid) = queue s"
  "convoStreamCompleted (note_saved_entry cfg s e mid) = convoStreamCompleted s"
  "startedAt (note_saved_entry cfg s e mid) = startedAt s"
  "finished (note_saved_entry cfg s e mid) = finished s" "listening (note_saved_entry cfg s e mid) = listening s"
  "timeoutTimer (note_saved_entry cfg s e mid) = timeoutTimer s" "idleTimer (note_saved_entry cfg s e mid) = idleTimer s"
  by (simp_all add: note_saved_entry_def Let_def split: option.splits)

lemma note_flags:
  "sawImageStreamPartFrame (note_saved_entry cfg s e mid) =
     (if requireFinalImageFrame cfg \<and> isImageRun cfg then sawImageStreamPartFrame s \<or> isStreamPart e
      else sawImageStreamPartFrame s)"
  "sawImageFinalFrame (note_saved_entry cfg s e mid) =
     (if requireFinalImageFrame cfg \<and> isImageRun cfg then sawImageFinalFrame s \<or> isFinalStreamFrame e
      else sawImageFinalFrame s)"
  by (auto simp: note_saved_entry_def Let_def split: option.splits)

lemma arm_buffer_fields [simp]:
  "s_savedCount (arm_after_buffer cfg s) = s_savedCount s" "s_savedFiles (arm_after_buffer cfg s) = s_savedFiles s"
  "s_disk (arm_after_buffer cfg s) = s_disk s" "seen (arm_after_buffer cfg s) = seen s"
  "s_metadataIds (arm_after_buffer cfg s) = s_metadataIds s"
  "s_streamEvents (arm_after_buffer cfg s) = s_streamEvents s" "queue (arm_after_buffer cfg s) = queue s"
  "sawImageStreamPartFrame (arm_after_buffer cfg s) = sawImageStreamPartFrame s"
  "sawImageFinalFrame (arm_after_buffer cfg s) = sawImageFinalFrame s"
  "convoStreamCompleted (arm_after_buffer cfg s) = convoStreamCompleted s" "startedAt (arm_after_buffer cfg s) = startedAt s"
  by (simp_all add: arm_after_buffer_def)

lemma arm_direct_fields [simp]:
  "s_savedCount (arm_after_direct cfg s n) = s_savedCount s" "s_savedFiles (arm_after_direct cfg s n) = s_savedFiles s"
  "s_disk (arm_after_direct cfg s n) = s_disk s" "seen (arm_after_direct cfg s n) = seen s"
  "s_metadataIds (arm_after_direct cfg s n) = s_metadataIds s"
  "s_streamEvents (arm_after_direct cfg s n) = s_streamEvents s" "queue (arm_after_direct cfg s n) = queue s"
  "sawImageStreamPartFrame (arm_after_direct cfg s n) = sawImageStreamPartFrame s"
  "sawImageFinalFrame (arm_after_direct cfg s n) = sawImageFinalFrame s"
  "convoStreamCompleted (arm_after_direct cfg s n) = convoStreamCompleted s" "startedAt (arm_after_direct cfg s n) = startedAt s"
  by (simp_all add: arm_after_direct_def)

lemma absorb_empty: "absorb_next r s emptySaveResult = s"
  by (simp add: absorb_next_def emptySaveResult_def buildSaveResult_def js_unique_def)

lemma absorb_one:
  "absorb_next r s (buildSaveResult n [f] ids []) =
     (emitStreamEvent (s\<lparr> s_savedCount := s_savedCount s + n, s_savedFiles := s_savedFiles s @ [f] \<rparr>)
        (direct_file_saved_event r f))
       \<lparr> s_metadataIds := foldl set_add (s_metadataIds s) (js_unique (filter (\<lambda>i. i \<noteq> []) ids)) \<rparr>"
  by (simp add: absorb_next_def buildSaveResult_def emitStreamEvent_def filter_truthy_js_unique)

lemma absorb_one_fields [simp]:
  "s_savedCount (absorb_next r s (buildSaveResult n [f] ids [])) = s_savedCount s + n"
  "s_savedFiles (absorb_next r s (buildSaveResult n [f] ids [])) = s_savedFiles s @ [f]"
  "s_disk (absorb_next r s (buildSaveResult n [f] ids [])) = s_disk s"
  "seen (absorb_next r s (buildSaveResult n [f] ids [])) = seen s"
  "s_streamEvents (absorb_next r s (buildSaveResult n [f] ids [])) = s_streamEvents s @ [direct_file_saved_event r f]"
  "queue (absorb_next r s (buildSaveResult n [f] ids [])) = queue s"
  "sawImageStreamPartFrame (absorb_next r s (buildSaveResult n [f] ids [])) = sawImageStreamPartFrame s"
  "sawImageFinalFrame (absorb_next r s (buildSaveResult n [f] ids [])) = sawImageFinalFrame s"
  "convoStreamCompleted (absorb_next r s (buildSaveResult n [f] ids [])) = convoStreamCompleted s"
  "startedAt (absorb_next r s (buildSaveResult n [f] ids [])) = startedAt s"
  "finished (absorb_next r s (buildSaveResult n [f] ids [])) = finished s"
  "listening (absorb_next r s (buildSaveResult n [f] ids [])) = listening s"
  "timeoutTimer (absorb_next r s (buildSaveResult n [f] ids [])) = timeoutTimer s"
  "idleTimer (absorb_next r s (buildSaveResult n [f] ids [])) = idleTimer s"
  unfolding absorb_one by (simp_all add: emitStreamEvent_def)

subsection \<open>Saving a buffer\<close>

lemma saveBufferToDisk_Inr:
  assumes "saveBufferToDisk dir irun d w buf name ct mid = Inr (saved, d')"
  shows "files d' = (files d)(filePath saved \<mapsto> buf)" and "now d' = now d"
    and "\<not> isStreamPart saved" and "\<not> isFinalStreamFrame saved" and "contentType saved = ct"
    and "byteLength saved = length buf" and "metadataId saved = mid"
    and "filePath saved = fst (save_target dir irun d name ct)"
  using assms
  by (auto simp: saveBufferToDisk_def Let_def split: if_splits)

lemma saveDownloadRecord_Inr:
  assumes "saveDownloadRecord cfg d net w u name mid0 = Inr (res, d')"
  shows "\<exists>buf name' ct mid saved ids.
           saveBufferToDisk (outputDir cfg) (imageRun cfg) d w buf name' ct mid = Inr (saved, d')
           \<and> res = buildSaveResult 1 [saved] ids []"
proof (cases "fst (fetchDownloadWithRetry (preferCurlDownloads cfg) net 4 (isFileRun cfg))")
  case (Inl e)
  with assms show ?thesis by (simp add: saveDownloadRecord_def Let_def)
next
  case (Inr got)
  define mid where "mid = (case nonempty_string mid0 of Some i \<Rightarrow> Some i | None \<Rightarrow> extractFileId u)"
  define name' where "name' = (if name \<noteq> [] then name
                      else if f_fileName got \<noteq> [] then f_fileName got
                      else prefix_or (imageRun cfg) ''download'' @ ''-'' @ decimal (now d))"
  show ?thesis
  proof (cases "saveBufferToDisk (outputDir cfg) (imageRun cfg) d w (f_buffer got) name' (f_contentType got) mid")
    case (Inl e)
    with assms Inr show ?thesis
      by (simp add: saveDownloadRecord_def Let_def mid_def name'_def)
  next
    case sv: (Inr p)
    obtain saved d2 where p: "p = (saved, d2)" by (cases p)
    from assms Inr sv p have "res = buildSaveResult 1 [saved] (case mid of Some i \<Rightarrow> [i] | None \<Rightarrow> []) []"
      and "d2 = d'"
      by (simp_all add: saveDownloadRecord_def Let_def mid_def name'_def)
    with sv p show ?thesis by blast
  qed
qed

subsection \<open>Every branch is a sequence of elementary changes\<close>



subsection \<open>Every branch is a sequence of elementary changes\<close>

lemma handleFileBuffer_change:
  assumes "handleFileBuffer cfg s w buf ct name mid meta = Inr s'"
  shows "change cfg s s'"
proof (cases "shouldIgnoreCapturedFile cfg name (case em_sourceFileName meta of Some n \<Rightarrow> n | None \<Rightarrow> [])")
  case True
  with assms show ?thesis
    by (auto simp: handleFileBuffer_def intro: change.emitted)
next
  case False
  show ?thesis
  proof (cases "saveBufferToDisk (outputDir cfg) (imageRun cfg) (s_disk s) w buf
                (if name \<noteq> [] then name else ''download-'' @ decimal (now (s_disk s))) ct mid")
    case (Inl e)
    with assms False show ?thesis by (simp add: handleFileBuffer_def)
  next
    case (Inr p)
    obtain saved d' where p: "p = (saved, d')" by (cases p)
    from assms False Inr p have "s' = arm_after_buffer cfg
                    (note_saved_entry cfg
                       (emitStreamEvent (s\<lparr> s_disk := d' \<rparr>)
                          (file_saved_event meta mid ct (with_frame_meta saved meta)))
                       (with_frame_meta saved meta) mid)"
      by (simp add: handleFileBuffer_def)
    then show ?thesis
      using change.buffer_saved [OF Inr [unfolded p]] by simp
  qed
qed

lemma change_then:
  assumes "change cfg a b" and "change cfg b c"
  shows "(change cfg)\<^sup>*\<^sup>* a c"
proof -
  from assms(1) have "(change cfg)\<^sup>*\<^sup>* a b" by (rule r_into_rtranclp)
  then show ?thesis using assms(2) by (rule rtranclp.rtrancl_into_rtrancl)
qed

lemma change_emit1: "(change cfg)\<^sup>*\<^sup>* s (emitStreamEvent s ev)"
  using change.emitted by (rule r_into_rtranclp)

lemma change_emit2: "(change cfg)\<^sup>*\<^sup>* s (emitStreamEvent (emitStreamEvent s ev) ev')"
  using change.emitted change.emitted by (rule change_then)

lemma change_emit_handle:
  assumes "handleFileBuffer cfg (emitStreamEvent s ev) w buf ct name mid meta = Inr s'"
  shows "(change cfg)\<^sup>*\<^sup>* s s'"
  using change.emitted handleFileBuffer_change [OF assms] by (rule change_then)

lemma metadata_fetch_and_save_changes:
  "(change cfg)\<^sup>*\<^sup>* s (metadata_fetch_and_save cfg (emitStreamEvent s ev) r raw mid)"
  by (simp add: metadata_fetch_and_save_def metadata_failed_def change_emit2 change_emit_handle
           split: sum.splits)

lemma metadata_download_changes: "(change cfg)\<^sup>*\<^sup>* s (metadata_download cfg s r body)"
  by (simp add: metadata_download_def metadata_failed_def metadata_fetch_and_save_changes
        change_emit1 split: download_url_field.splits)

lemma process_metadata_changes: "(change cfg)\<^sup>*\<^sup>* s (process_metadata cfg s r)"
  by (simp add: process_metadata_def metadata_failed_def metadata_download_changes
        change_emit1 split: option.splits)

lemma estuary_fetch_and_save_changes:
  "(change cfg)\<^sup>*\<^sup>* s (estuary_fetch_and_save cfg (emitStreamEvent s ev) r itemId)"
  by (simp add: estuary_fetch_and_save_def estuary_failed_def change_emit2 change_emit_handle
           split: sum.splits)

lemma process_estuary_changes: "(change cfg)\<^sup>*\<^sup>* s (process_estuary cfg s r)"
  by (simp add: process_estuary_def estuary_failed_def estuary_fetch_and_save_changes
        change_emit1 split: option.splits)


lemma process_direct_changes: "(change cfg)\<^sup>*\<^sup>* s (process_direct cfg s r)"
proof (cases "shouldIgnoreCapturedFile cfg (direct_nameHint cfg s r) []")
  case True
  then show ?thesis
    by (simp add: process_direct_def Let_def change_emit1)
next
  case False
  show ?thesis
  proof (cases "saveDownloadRecord cfg (s_disk s) (r_net r) (r_write_ok r) (r_url r)
                   (direct_nameHint cfg s r) (extractFileId (r_url r))")
    case (Inl e)
    have "(change cfg)\<^sup>*\<^sup>* s (arm_after_direct cfg (absorb_next r
             (emitStreamEvent s (save_failed_event ''download_response'' (extractFileId (r_url r)) (r_contentType r)))
             emptySaveResult) 0)"
      using change.emitted change.direct_failed by (rule change_then)
    with False Inl show ?thesis by (simp add: process_direct_def Let_def)
  next
    case (Inr p)
    obtain res d' where p: "p = (res, d')" by (cases p)
    from saveDownloadRecord_Inr [OF Inr [unfolded p]] obtain buf name' ct mid saved ids where
      sv: "saveBufferToDisk (outputDir cfg) (imageRun cfg) (s_disk s) (r_write_ok r) buf name' ct mid = Inr (saved, d')"
      and res: "res = buildSaveResult 1 [saved] ids []" by blast
    have sc: "savedCount res = 1" by (simp add: res buildSaveResult_def)
    have "change cfg s (arm_after_direct cfg (absorb_next r (s\<lparr> s_disk := d' \<rparr>) res) 1)"
      unfolding res by (rule change.direct_saved [OF sv])
    then have "(change cfg)\<^sup>*\<^sup>* s (arm_after_direct cfg (absorb_next r (s\<lparr> s_disk := d' \<rparr>) res) 1)"
      by (rule r_into_rtranclp)
    with False Inr p sc show ?thesis by (simp add: process_direct_def Let_def)
  qed
qed

lemma classify_changes: "(change cfg)\<^sup>*\<^sup>* s (classify cfg s r)"
  by (simp add: classify_def process_metadata_changes process_direct_changes process_estuary_changes)

subsection \<open>What an elementary change preserves\<close>

lemma change_seen: "change cfg s s' \<Longrightarrow> seen s' = seen s"
  by (induction rule: change.induct) (simp_all add: absorb_empty)

lemma change_queue: "change cfg s s' \<Longrightarrow> queue s' = queue s"
  by (induction rule: change.induct) (simp_all add: absorb_empty)

lemma change_startedAt: "change cfg s s' \<Longrightarrow> startedAt s' = startedAt s"
  by (induction rule: change.induct) (simp_all add: absorb_empty)

lemma change_now: "change cfg s s' \<Longrightarrow> now (s_disk s') = now (s_disk s)"
  by (induction rule: change.induct) (auto simp: absorb_empty dest: saveBufferToDisk_Inr(2))

lemma change_convo: "change cfg s s' \<Longrightarrow> convoStreamCompleted s' = convoStreamCompleted s"
  by (induction rule: change.induct) (simp_all add: absorb_empty)

lemma arm_buffer_timers_inv:
  "timers_inv cfg s \<Longrightarrow> timers_inv cfg (arm_after_buffer cfg s)"
  by (auto simp: timers_inv_def arm_after_buffer_def finish_def cleanup_def)

lemma arm_direct_timers_inv:
  "timers_inv cfg s \<Longrightarrow> timers_inv cfg (arm_after_direct cfg s n)"
  by (auto simp: timers_inv_def arm_after_direct_def finish_def cleanup_def)

lemma timers_inv_cong:
  "finished s' = finished s \<Longrightarrow> timeoutTimer s' = timeoutTimer s \<Longrightarrow> listening s' = listening s
   \<Longrightarrow> startedAt s' = startedAt s \<Longrightarrow> timers_inv cfg s' = timers_inv cfg s"
  by (simp add: timers_inv_def)

lemma change_timers_inv: "change cfg s s' \<Longrightarrow> timers_inv cfg s \<Longrightarrow> timers_inv cfg s'"
proof (induction rule: change.induct)
  case (emitted s ev)
  then show ?case by (simp add: timers_inv_def)
next
  case (buffer_saved s w buf name ct mid saved d' ev meta)
  have "timers_inv cfg (note_saved_entry cfg (emitStreamEvent (s\<lparr>s_disk := d'\<rparr>) ev) (with_frame_meta saved meta) mid)
      = timers_inv cfg s"
    by (rule timers_inv_cong) simp_all
  with buffer_saved show ?case by (simp add: arm_buffer_timers_inv)
next
  case (direct_saved s w buf name ct mid saved d' r ids)
  have "timers_inv cfg (absorb_next r (s\<lparr>s_disk := d'\<rparr>) (buildSaveResult 1 [saved] ids []))
      = timers_inv cfg s"
    by (rule timers_inv_cong) simp_all
  with direct_saved show ?case by (simp add: arm_direct_timers_inv)
next
  case (direct_failed s r)
  then show ?case by (simp add: absorb_empty arm_direct_timers_inv)
qed

lemma schedule_part_wait: "part_wait_inv cfg (scheduleIdleCheck cfg s)"
  by (auto simp: part_wait_inv_def scheduleIdleCheck_def Let_def)

lemma arm_buffer_part_wait: "part_wait_inv cfg (arm_after_buffer cfg s)"
  using schedule_part_wait [of cfg s]
  by (auto simp: arm_after_buffer_def part_wait_inv_def finish_def cleanup_def)

lemma arm_direct_part_wait: "part_wait_inv cfg s \<Longrightarrow> part_wait_inv cfg (arm_after_direct cfg s n)"
  using schedule_part_wait [of cfg s]
  by (auto simp: arm_after_direct_def part_wait_inv_def finish_def cleanup_def)

lemma part_wait_inv_cong:
  "finished s' = finished s \<Longrightarrow> idleTimer s' = idleTimer s
   \<Longrightarrow> sawImageStreamPartFrame s' = sawImageStreamPartFrame s
   \<Longrightarrow> sawImageFinalFrame s' = sawImageFinalFrame s \<Longrightarrow> part_wait_inv cfg s' = part_wait_inv cfg s"
  by (simp add: part_wait_inv_def)

lemma change_part_wait: "change cfg s s' \<Longrightarrow> part_wait_inv cfg s \<Longrightarrow> part_wait_inv cfg s'"
proof (induction rule: change.induct)
  case (emitted s ev)
  then show ?case by (simp add: part_wait_inv_def)
next
  case (buffer_saved s w buf name ct mid saved d' ev meta)
  then show ?case by (simp add: arm_buffer_part_wait)
next
  case (direct_saved s w buf name ct mid saved d' r ids)
  have "part_wait_inv cfg (absorb_next r (s\<lparr>s_disk := d'\<rparr>) (buildSaveResult 1 [saved] ids []))
      = part_wait_inv cfg s"
    by (rule part_wait_inv_cong) simp_all
  with direct_saved show ?case by (simp add: arm_direct_part_wait)
next
  case (direct_failed s r)
  then show ?case by (simp add: absorb_empty arm_direct_part_wait)
qed


lemma with_frame_meta_fields [simp]:
  "filePath (with_frame_meta saved meta) = filePath saved"
  "isStreamPart (with_frame_meta saved meta) = em_isStreamPart meta"
  "isFinalStreamFrame (with_frame_meta saved meta) = em_isFinalStreamFrame meta"
  "contentType (with_frame_meta saved meta) = contentType saved"
  by (simp_all add: with_frame_meta_def)

lemma arm_buffer_flags_inv: "flags_inv cfg (arm_after_buffer cfg s) = flags_inv cfg s"
  by (simp add: flags_inv_def)

lemma arm_direct_flags_inv: "flags_inv cfg (arm_after_direct cfg s n) = flags_inv cfg s"
  by (simp add: flags_inv_def)

lemma change_flags_inv: "change cfg s s' \<Longrightarrow> flags_inv cfg s \<Longrightarrow> flags_inv cfg s'"
proof (induction rule: change.induct)
  case (emitted s ev)
  then show ?case by (simp add: flags_inv_def)
next
  case (buffer_saved s w buf name ct mid saved d' ev meta)
  then show ?case
    by (auto simp: arm_buffer_flags_inv flags_inv_def note_flags split: if_splits)
next
  case (direct_saved s w buf name ct mid saved d' r ids)
  from saveBufferToDisk_Inr(3,4) [OF direct_saved(1)]
  have "\<not> isStreamPart saved" "\<not> isFinalStreamFrame saved" .
  with direct_saved(2) show ?case
    by (auto simp: arm_direct_flags_inv flags_inv_def split: if_splits)
next
  case (direct_failed s r)
  then show ?case by (simp add: absorb_empty arm_direct_flags_inv)
qed

lemma arm_buffer_files_inv: "files_inv (arm_after_buffer cfg s) = files_inv s"
  by (simp add: files_inv_def)

lemma arm_direct_files_inv: "files_inv (arm_after_direct cfg s n) = files_inv s"
  by (simp add: files_inv_def)

lemma change_files_inv: "change cfg s s' \<Longrightarrow> files_inv s \<Longrightarrow> files_inv s'"
proof (induction rule: change.induct)
  case (emitted s ev)
  then show ?case by (simp add: files_inv_def)
next
  case (buffer_saved s w buf name ct mid saved d' ev meta)
  from saveBufferToDisk_Inr(1) [OF buffer_saved(1)]
  have "files d' = (files (s_disk s))(filePath saved \<mapsto> buf)" .
  with buffer_saved(2) show ?case
    by (auto simp: arm_buffer_files_inv files_inv_def)
next
  case (direct_saved s w buf name ct mid saved d' r ids)
  from saveBufferToDisk_Inr(1) [OF direct_saved(1)]
  have "files d' = (files (s_disk s))(filePath saved \<mapsto> buf)" .
  with direct_saved(2) show ?case
    by (auto simp: arm_direct_files_inv files_inv_def)
next
  case (direct_failed s r)
  then show ?case by (simp add: absorb_empty arm_direct_files_inv)
qed


lemma change_session_inv: "change cfg s s' \<Longrightarrow> session_inv cfg s \<Longrightarrow> session_inv cfg s'"
  by (simp add: session_inv_def change_timers_inv change_part_wait change_flags_inv change_files_inv)

lemma changes_session_inv: "(change cfg)\<^sup>*\<^sup>* s s' \<Longrightarrow> session_inv cfg s \<Longrightarrow> session_inv cfg s'"
  by (induction rule: rtranclp_induct) (simp_all add: change_session_inv)

lemma changes_seen: "(change cfg)\<^sup>*\<^sup>* s s' \<Longrightarrow> seen s' = seen s"
  by (induction rule: rtranclp_induct) (simp_all add: change_seen)

lemma changes_queue: "(change cfg)\<^sup>*\<^sup>* s s' \<Longrightarrow> queue s' = queue s"
  by (induction rule: rtranclp_induct) (simp_all add: change_queue)

lemma changes_startedAt: "(change cfg)\<^sup>*\<^sup>* s s' \<Longrightarrow> startedAt s' = startedAt s"
  by (induction rule: rtranclp_induct) (simp_all add: change_startedAt)

lemma changes_now: "(change cfg)\<^sup>*\<^sup>* s s' \<Longrightarrow> now (s_disk s') = now (s_disk s)"
  by (induction rule: rtranclp_induct) (simp_all add: change_now)

lemma session_inv_seen: "session_inv cfg (s\<lparr> seen := k \<rparr>) = session_inv cfg s"
  by (simp add: session_inv_def timers_inv_def part_wait_inv_def flags_inv_def files_inv_def)

lemma session_inv_queue: "session_inv cfg (s\<lparr> queue := q \<rparr>) = session_inv cfg s"
  by (simp add: session_inv_def timers_inv_def part_wait_inv_def flags_inv_def files_inv_def)

lemma processResponse_session_inv:
  "session_inv cfg s \<Longrightarrow> session_inv cfg (processResponse cfg s r)"
  using changes_session_inv [OF classify_changes [of cfg s r]]
        changes_session_inv [OF classify_changes [of cfg "s\<lparr> seen := seen s @ [dedupeKey r] \<rparr>" r]]
  by (simp add: processResponse_def session_inv_seen)

lemma processResponse_queue: "queue (processResponse cfg s r) = queue s"
  using changes_queue [OF classify_changes [of cfg s r]]
        changes_queue [OF classify_changes [of cfg "s\<lparr> seen := seen s @ [dedupeKey r] \<rparr>" r]]
  by (simp add: processResponse_def)

lemma processResponse_startedAt: "startedAt (processResponse cfg s r) = startedAt s"
  using changes_startedAt [OF classify_changes [of cfg s r]]
        changes_startedAt [OF classify_changes [of cfg "s\<lparr> seen := seen s @ [dedupeKey r] \<rparr>" r]]
  by (simp add: processResponse_def)

lemma processResponse_now: "now (s_disk (processResponse cfg s r)) = now (s_disk s)"
  using changes_now [OF classify_changes [of cfg s r]]
        changes_now [OF classify_changes [of cfg "s\<lparr> seen := seen s @ [dedupeKey r] \<rparr>" r]]
  by (simp add: processResponse_def)

subsection \<open>Timers, listener and beacon\<close>

lemma finish_session_inv: "session_inv cfg s \<Longrightarrow> session_inv cfg (finish s)"
  by (auto simp: session_inv_def timers_inv_def part_wait_inv_def flags_inv_def files_inv_def
        finish_def cleanup_def)

lemma session_inv_clear_timer:
  "session_inv cfg s \<Longrightarrow> session_inv cfg (finish (s\<lparr> idleTimer := None \<rparr>))"
  "session_inv cfg s \<Longrightarrow> session_inv cfg (finish (s\<lparr> timeoutTimer := None \<rparr>))"
  by (auto simp: session_inv_def timers_inv_def part_wait_inv_def flags_inv_def files_inv_def
        finish_def cleanup_def)

lemma session_inv_now:
  "session_inv cfg (s\<lparr> s_disk := (s_disk s)\<lparr> now := t \<rparr> \<rparr>) = session_inv cfg s"
  by (simp add: session_inv_def timers_inv_def part_wait_inv_def flags_inv_def files_inv_def)

lemma fire_timers_session_inv: "session_inv cfg s \<Longrightarrow> session_inv cfg (fire_timers s t)"
  unfolding fire_timers_def Let_def
  by (simp add: session_inv_now session_inv_clear_timer)

lemma onResponse_session_inv: "session_inv cfg s \<Longrightarrow> session_inv cfg (onResponse s r)"
  by (simp add: onResponse_def session_inv_queue)

lemma markConvo_session_inv: "session_inv cfg s \<Longrightarrow> session_inv cfg (markConvoStreamCompleted cfg s)"
  by (auto simp: session_inv_def timers_inv_def part_wait_inv_def flags_inv_def files_inv_def
        markConvoStreamCompleted_def Let_def emitStreamEvent_def)

lemma step_session_inv: "session_inv cfg s \<Longrightarrow> session_inv cfg (step cfg s ev)"
  unfolding step_def Let_def
  by (auto simp: fire_timers_session_inv onResponse_session_inv markConvo_session_inv
        processResponse_session_inv session_inv_queue split: input.splits list.splits)

lemma run_session_inv: "session_inv cfg s \<Longrightarrow> session_inv cfg (run cfg s trace)"
  unfolding run_def by (induction trace arbitrary: s) (simp_all add: step_session_inv)

lemma init_session_inv: "session_inv cfg (init_session cfg d)"
  by (simp add: session_inv_def timers_inv_def part_wait_inv_def flags_inv_def files_inv_def init_session_def)

section \<open>Finishing and draining\<close>

subsection \<open>Finishing\<close>

lemma change_finished_mono: "change cfg s s' \<Longrightarrow> finished s \<Longrightarrow> finished s'"
  by (induction rule: change.induct)
     (auto simp: absorb_empty arm_after_buffer_def arm_after_direct_def)

lemma change_count_mono: "change cfg s s' \<Longrightarrow> s_savedCount s \<le> s_savedCount s'"
  by (induction rule: change.induct) (simp_all add: absorb_empty)

lemma change_finished_cause:
  "change cfg s s' \<Longrightarrow> finished s' \<Longrightarrow> finished s \<or> maxFiles cfg \<le> s_savedCount s'"
  by (induction rule: change.induct)
     (auto simp: absorb_empty arm_after_buffer_def arm_after_direct_def split: if_splits)

lemma changes_finished_mono: "(change cfg)\<^sup>*\<^sup>* s s' \<Longrightarrow> finished s \<Longrightarrow> finished s'"
  by (induction rule: rtranclp_induct) (simp_all add: change_finished_mono)

lemma changes_finished_cause:
  "(change cfg)\<^sup>*\<^sup>* s s' \<Longrightarrow> finished s' \<Longrightarrow> finished s \<or> maxFiles cfg \<le> s_savedCount s'"
proof (induction rule: rtranclp_induct)
  case base
  then show ?case by simp
next
  case (step y z)
  from change_finished_cause [OF step(2) step(4)] show ?case
  proof
    assume "finished y"
    with step(3) have "finished s \<or> maxFiles cfg \<le> s_savedCount y" by simp
    with change_count_mono [OF step(2)] show ?thesis by auto
  next
    assume "maxFiles cfg \<le> s_savedCount z"
    then show ?thesis by simp
  qed
qed

lemma processResponse_finished_mono: "finished s \<Longrightarrow> finished (processResponse cfg s r)"
  using changes_finished_mono [OF classify_changes [of cfg s r]]
        changes_finished_mono [OF classify_changes [of cfg "s\<lparr> seen := seen s @ [dedupeKey r] \<rparr>" r]]
  by (simp add: processResponse_def)

lemma processResponse_finished_cause:
  "finished (processResponse cfg s r) \<Longrightarrow> finished s \<or> maxFiles cfg \<le> s_savedCount (processResponse cfg s r)"
  using changes_finished_cause [OF classify_changes [of cfg s r]]
        changes_finished_cause [OF classify_changes [of cfg "s\<lparr> seen := seen s @ [dedupeKey r] \<rparr>" r]]
  by (auto simp: processResponse_def split: if_splits)

lemma fire_timers_fields [simp]:
  "s_savedCount (fire_timers s t) = s_savedCount s" "s_savedFiles (fire_timers s t) = s_savedFiles s"
  "files (s_disk (fire_timers s t)) = files (s_disk s)" "seen (fire_timers s t) = seen s"
  "queue (fire_timers s t) = queue s" "startedAt (fire_timers s t) = startedAt s"
  "sawImageStreamPartFrame (fire_timers s t) = sawImageStreamPartFrame s"
  "sawImageFinalFrame (fire_timers s t) = sawImageFinalFrame s"
  "s_streamEvents (fire_timers s t) = s_streamEvents s"
  "now (s_disk (fire_timers s t)) = max (now (s_disk s)) t"
  by (simp_all add: fire_timers_def Let_def)

lemma fire_timers_finished_mono: "finished s \<Longrightarrow> finished (fire_timers s t)"
  by (simp add: fire_timers_def Let_def finish_def)

lemma fire_timers_finished_iff:
  "finished (fire_timers s t) \<longleftrightarrow>
     finished s \<or> timer_due (timeoutTimer s) (max (now (s_disk s)) t)
       \<or> timer_due (idleTimer s) (max (now (s_disk s)) t)"
  by (auto simp: fire_timers_def Let_def finish_def cleanup_def timer_due_def split: option.splits)

lemma markConvo_finished [simp]: "finished (markConvoStreamCompleted cfg s) = finished s"
  by (simp add: markConvoStreamCompleted_def Let_def emitStreamEvent_def)

lemma markConvo_startedAt [simp]: "startedAt (markConvoStreamCompleted cfg s) = startedAt s"
  by (simp add: markConvoStreamCompleted_def Let_def emitStreamEvent_def)

lemma onResponse_fields [simp]:
  "finished (onResponse s r) = finished s" "startedAt (onResponse s r) = startedAt s"
  by (simp_all add: onResponse_def)

lemma step_finished_mono: "finished s \<Longrightarrow> finished (step cfg s ev)"
  unfolding step_def Let_def
  by (auto simp: fire_timers_finished_mono processResponse_finished_mono
           intro!: processResponse_finished_mono split: input.splits list.splits)

lemma step_startedAt: "startedAt (step cfg s ev) = startedAt s"
  unfolding step_def Let_def
  by (auto simp: processResponse_startedAt split: input.splits list.splits)

lemma run_startedAt: "startedAt (run cfg s trace) = startedAt s"
  unfolding run_def by (induction trace arbitrary: s) (simp_all add: step_startedAt)

lemma step_finished_cause:
  assumes "finished (step cfg s ev)" and "\<not> finished s"
  shows "timer_due (timeoutTimer s) (max (now (s_disk s)) (fst ev))
       \<or> timer_due (idleTimer s) (max (now (s_disk s)) (fst ev))
       \<or> maxFiles cfg \<le> s_savedCount (step cfg s ev)"
proof (cases "finished (fire_timers s (fst ev))")
  case True
  with assms(2) show ?thesis unfolding fire_timers_finished_iff by blast
next
  case False
  show ?thesis
  proof (cases "snd ev")
    case (Arrives r)
    with assms(1) False show ?thesis by (simp add: step_def Let_def)
  next
    case ProcessNext
    show ?thesis
    proof (cases "queue (fire_timers s (fst ev))")
      case Nil
      with assms(1) False ProcessNext show ?thesis by (simp add: step_def Let_def)
    next
      case (Cons r rest)
      with ProcessNext have st: "step cfg s ev = processResponse cfg ((fire_timers s (fst ev))\<lparr> queue := rest \<rparr>) r"
        by (simp add: step_def Let_def)
      from assms(1) [unfolded st] False processResponse_finished_cause
      have "maxFiles cfg \<le> s_savedCount (processResponse cfg ((fire_timers s (fst ev))\<lparr> queue := rest \<rparr>) r)"
        by fastforce
      then show ?thesis by (simp add: st)
    qed
  next
    case Beacon
    with assms(1) False show ?thesis by (simp add: step_def Let_def split: if_splits)
  next
    case Tick
    with assms(1) False show ?thesis by (simp add: step_def Let_def)
  qed
qed


subsection \<open>Draining the queue\<close>

lemma foldl_process_inv:
  "session_inv cfg s \<Longrightarrow> session_inv cfg (foldl (processResponse cfg) s rs)"
  by (induction rs arbitrary: s) (simp_all add: processResponse_session_inv)

lemma foldl_process_queue: "queue (foldl (processResponse cfg) s rs) = queue s"
  by (induction rs arbitrary: s) (simp_all add: processResponse_queue)

lemma foldl_process_finished: "finished s \<Longrightarrow> finished (foldl (processResponse cfg) s rs)"
  by (induction rs arbitrary: s) (simp_all add: processResponse_finished_mono)

lemma drain_inv: "session_inv cfg s \<Longrightarrow> session_inv cfg (drain cfg s)"
  by (simp add: drain_def foldl_process_inv session_inv_queue)

lemma drain_queue: "queue (drain cfg s) = []"
  by (simp add: drain_def foldl_process_queue)

lemma drain_finished: "finished s \<Longrightarrow> finished (drain cfg s)"
  by (simp add: drain_def foldl_process_finished)

lemma run_finished_or_armed:
  "session_inv cfg (run cfg (init_session cfg d) trace)"
  by (rule run_session_inv) (rule init_session_inv)

lemma timeout_fires:
  assumes "timers_inv cfg s" and "startedAt s + timeoutMs cfg \<le> t"
  shows "finished (fire_timers s t)"
  using assms
  by (auto simp: fire_timers_finished_iff timers_inv_def timer_due_def)

lemma checkFinished_ends:
  assumes "session_inv cfg s"
  shows "\<exists>s'. checkFinished s = Some s' \<and> finished s' \<and> session_inv cfg s'
           \<and> s_savedFiles s' = s_savedFiles s \<and> s_savedCount s' = s_savedCount s
           \<and> files (s_disk s') = files (s_disk s) \<and> queue s' = queue s
           \<and> s_streamEvents s' = s_streamEvents s \<and> startedAt s' = startedAt s
           \<and> (finished s \<longrightarrow> s' = s)"
  using assms
proof (induction "startedAt s + timeoutMs cfg - now (s_disk s)" arbitrary: s rule: less_induct)
  case less
  show ?case
  proof (cases "finished s")
    case True
    with less.prems show ?thesis by (subst checkFinished.simps) simp
  next
    case False
    define s1 where "s1 = fire_timers s (now (s_disk s) + 250)"
    have i1: "session_inv cfg s1" unfolding s1_def using less.prems by (rule fire_timers_session_inv)
    have c: "checkFinished s = checkFinished s1"
      using False by (subst checkFinished.simps) (simp add: s1_def)
    have k: "s_savedFiles s1 = s_savedFiles s" "s_savedCount s1 = s_savedCount s"
      "files (s_disk s1) = files (s_disk s)" "queue s1 = queue s"
      "s_streamEvents s1 = s_streamEvents s" "startedAt s1 = startedAt s"
      "now (s_disk s1) = now (s_disk s) + 250"
      by (simp_all add: s1_def)
    show ?thesis
    proof (cases "finished s1")
      case True
      then have "checkFinished s1 = Some s1" by (subst checkFinished.simps) simp
      with c True i1 k False show ?thesis by simp
    next
      case nf: False
      have "\<not> startedAt s + timeoutMs cfg \<le> now (s_disk s) + 250"
        using nf less.prems timeout_fires [of cfg s "now (s_disk s) + 250"]
        by (auto simp: s1_def session_inv_def)
      then have "startedAt s1 + timeoutMs cfg - now (s_disk s1)
                   < startedAt s + timeoutMs cfg - now (s_disk s)"
        using k by simp
      from less.hyps [OF this i1] obtain s' where
        "checkFinished s1 = Some s'" "finished s'" "session_inv cfg s'"
        "s_savedFiles s' = s_savedFiles s1" "s_savedCount s' = s_savedCount s1"
        "files (s_disk s') = files (s_disk s1)" "queue s' = queue s1"
        "s_streamEvents s' = s_streamEvents s1" "startedAt s' = startedAt s1"
        by blast
      with c k False show ?thesis by simp
    qed
  qed
qed

lemma at_end_facts:
  "\<exists>s3. session_at_end cfg d trace = Some s3 \<and> session_inv cfg s3 \<and> finished s3 \<and> queue s3 = []"
proof -
  define s1 where "s1 = run cfg (init_session cfg d) trace"
  have i1: "session_inv cfg s1" unfolding s1_def by (rule run_finished_or_armed)
  from checkFinished_ends [OF i1] obtain s2 where
    c: "checkFinished s1 = Some s2" and f2: "finished s2" and i2: "session_inv cfg s2" by blast
  have e: "session_at_end cfg d trace = Some (drain cfg s2)"
    by (simp add: session_at_end_def s1_def [symmetric] c)
  show ?thesis
    by (simp add: e drain_inv i2 drain_finished f2 drain_queue)
qed

lemma copy_latest_ok:
  assumes "files_inv s" and "copy_ok"
  shows "\<exists>s'. copy_latest cfg copy_ok s = Inr s'
     \<and> s_savedFiles s' = s_savedFiles s \<and> s_savedCount s' = s_savedCount s
     \<and> s_metadataIds s' = s_metadataIds s \<and> s_streamEvents s' = s_streamEvents s
     \<and> finished s' = finished s \<and> listening s' = listening s \<and> queue s' = queue s
     \<and> (s_savedFiles s \<noteq> [] \<longrightarrow>
          files (s_disk s') (latestPath cfg (last (s_savedFiles s)))
            = files (s_disk s) (filePath (last (s_savedFiles s)))
          \<and> files (s_disk s) (filePath (last (s_savedFiles s))) \<noteq> None
          \<and> (\<forall>p. p \<noteq> latestPath cfg (last (s_savedFiles s)) \<longrightarrow> files (s_disk s') p = files (s_disk s) p))
     \<and> (s_savedFiles s = [] \<longrightarrow> s' = s)"
proof (cases "s_savedFiles s = []")
  case True
  then show ?thesis by (simp add: copy_latest_def)
next
  case False
  then have "last (s_savedFiles s) \<in> set (s_savedFiles s)" by simp
  with assms obtain b where b: "files (s_disk s) (filePath (last (s_savedFiles s))) = Some b"
    unfolding files_inv_def by fastforce
  show ?thesis
  proof (cases "filePath (last (s_savedFiles s)) = latestPath cfg (last (s_savedFiles s))")
    case True
    with False b show ?thesis by (simp add: copy_latest_def Let_def)
  next
    case ne: False
    with False b assms(2) show ?thesis by (simp add: copy_latest_def Let_def)
  qed
qed

section \<open>The idle timer while a final frame is awaited\<close>

lemma handleFileBuffer_shape:
  assumes "handleFileBuffer cfg s w buf ct name mid meta = Inr s'"
  shows "(\<exists>ev. s' = emitStreamEvent s ev \<and> e_type ev = FileIgnored)
       \<or> (\<exists>saved d' ev name'.
             saveBufferToDisk (outputDir cfg) (imageRun cfg) (s_disk s) w buf name' ct mid = Inr (saved, d')
             \<and> s' = arm_after_buffer cfg
                    (note_saved_entry cfg (emitStreamEvent (s\<lparr> s_disk := d' \<rparr>) ev)
                       (with_frame_meta saved meta) mid))"
proof (cases "shouldIgnoreCapturedFile cfg name (case em_sourceFileName meta of Some n \<Rightarrow> n | None \<Rightarrow> [])")
  case True
  with assms show ?thesis
    by (auto simp: handleFileBuffer_def blank_event_def)
next
  case False
  show ?thesis
  proof (cases "saveBufferToDisk (outputDir cfg) (imageRun cfg) (s_disk s) w buf
                (if name \<noteq> [] then name else ''download-'' @ decimal (now (s_disk s))) ct mid")
    case (Inl e)
    with assms False show ?thesis by (simp add: handleFileBuffer_def)
  next
    case (Inr p)
    obtain saved d' where p: "p = (saved, d')" by (cases p)
    from assms False Inr p have "s' = arm_after_buffer cfg
                    (note_saved_entry cfg
                       (emitStreamEvent (s\<lparr> s_disk := d' \<rparr>)
                          (file_saved_event meta mid ct (with_frame_meta saved meta)))
                       (with_frame_meta saved meta) mid)"
      by (simp add: handleFileBuffer_def)
    with Inr p show ?thesis by blast
  qed
qed

lemma handleFileBuffer_flags:
  assumes "handleFileBuffer cfg s w buf ct name mid meta = Inr s'"
  shows "sawImageStreamPartFrame s \<Longrightarrow> sawImageStreamPartFrame s'"
    and "\<not> sawImageFinalFrame s \<Longrightarrow> \<not> em_isFinalStreamFrame meta \<Longrightarrow> \<not> sawImageFinalFrame s'"
  using handleFileBuffer_shape [OF assms]
  by (auto simp: note_flags split: if_splits)

lemma markConvo_idle:
  "idleTimer s = None \<Longrightarrow> requireFinalImageFrame cfg \<Longrightarrow> sawImageStreamPartFrame s
   \<Longrightarrow> \<not> sawImageFinalFrame s \<Longrightarrow> idleTimer (markConvoStreamCompleted cfg s) = None"
  by (simp add: markConvoStreamCompleted_def Let_def)

text \<open>
  C2.  In a media session (\<open>requireFinalImageFrame\<close> on an image run), in every state the
  session reaches in which it still runs, a part frame has been saved and no final frame has
  been saved: the idle timer is not pending; observing the beacon does not arm it; the idle
  check does not arm it; a save that is not a final frame leaves it unarmed; and a step that
  finishes the session does so because the hard timeout is due or the cap on saved files
  is reached.
\<close>

theorem idle_timer_unarmed_until_final_frame:
  assumes "requireFinalImageFrame cfg" and "isImageRun cfg"
    and "s = run cfg (init_session cfg d) trace" and "\<not> finished s"
    and "\<exists>f \<in> set (s_savedFiles s). isStreamPart f"
    and "\<forall>f \<in> set (s_savedFiles s). \<not> isFinalStreamFrame f"
  shows "idleTimer s = None
       \<and> idleTimer (markConvoStreamCompleted cfg s) = None
       \<and> idleTimer (scheduleIdleCheck cfg s) = None
       \<and> (handleFileBuffer cfg s w buf ct name mid meta = Inr s' \<and> \<not> finished s'
            \<and> \<not> em_isFinalStreamFrame meta \<longrightarrow> idleTimer s' = None)
       \<and> (finished (step cfg s ev) \<longrightarrow>
            timer_due (timeoutTimer s) (max (now (s_disk s)) (fst ev))
            \<or> maxFiles cfg \<le> s_savedCount (step cfg s ev))"
proof -
  have inv: "session_inv cfg s" unfolding assms(3) by (rule run_finished_or_armed)
  then have fl: "flags_inv cfg s" and pw: "part_wait_inv cfg s" by (simp_all add: session_inv_def)
  from fl assms(1,2,5,6) have saw: "sawImageStreamPartFrame s" "\<not> sawImageFinalFrame s"
    by (simp_all add: flags_inv_def)
  from pw saw assms(1,4) have idle: "idleTimer s = None" by (simp add: part_wait_inv_def)
  have c2: "idleTimer (markConvoStreamCompleted cfg s) = None"
    using idle assms(1) saw by (rule markConvo_idle)
  have c3: "idleTimer (scheduleIdleCheck cfg s) = None"
    using assms(1) saw by (rule schedule_idle)
  have c4: "idleTimer s' = None"
    if h: "handleFileBuffer cfg s w buf ct name mid meta = Inr s'" "\<not> finished s'"
          "\<not> em_isFinalStreamFrame meta"
  proof -
    from change_part_wait [OF handleFileBuffer_change [OF h(1)] pw] have "part_wait_inv cfg s'" .
    moreover have "sawImageStreamPartFrame s'" "\<not> sawImageFinalFrame s'"
      using handleFileBuffer_flags [OF h(1)] saw h(3) by blast+
    ultimately show ?thesis using assms(1) h(2) by (simp add: part_wait_inv_def)
  qed
  have c5: "timer_due (timeoutTimer s) (max (now (s_disk s)) (fst ev))
            \<or> maxFiles cfg \<le> s_savedCount (step cfg s ev)"
    if "finished (step cfg s ev)"
    using step_finished_cause [OF that assms(4)] idle by (simp add: timer_due_def)
  show ?thesis
  proof (intro conjI impI)
    show "idleTimer s = None" by (rule idle)
    show "idleTimer (markConvoStreamCompleted cfg s) = None" by (rule c2)
    show "idleTimer (scheduleIdleCheck cfg s) = None" by (rule c3)
    show "idleTimer s' = None"
      if "handleFileBuffer cfg s w buf ct name mid meta = Inr s' \<and> \<not> finished s'
            \<and> \<not> em_isFinalStreamFrame meta"
      using that c4 by blast
    show "timer_due (timeoutTimer s) (max (now (s_disk s)) (fst ev))
            \<or> maxFiles cfg \<le> s_savedCount (step cfg s ev)"
      if "finished (step cfg s ev)"
      using that by (rule c5)
  qed
qed


theorem idle_timer_unarmed_until_final_frame_witness:
  "requireFinalImageFrame example_media_config \<and> isImageRun example_media_config
   \<and> \<not> finished (run example_media_config (init_session example_media_config example_disk) example_part_trace)
   \<and> map isStreamPart (s_savedFiles (run example_media_config (init_session example_media_config example_disk) example_part_trace)) = [True]
   \<and> idleTimer (run example_media_config (init_session example_media_config example_disk) example_part_trace) = None
   \<and> idleTimer (markConvoStreamCompleted example_media_config
        (run example_media_config (init_session example_media_config example_disk) example_part_trace)) = None"
proof -
  define s where "s = run example_media_config (init_session example_media_config example_disk) example_part_trace"
  have e: "requireFinalImageFrame example_media_config \<and> isImageRun example_media_config
     \<and> \<not> finished (run example_media_config (init_session example_media_config example_disk) example_part_trace)
     \<and> map isStreamPart (s_savedFiles (run example_media_config (init_session example_media_config example_disk) example_part_trace)) = [True]
     \<and> map isFinalStreamFrame (s_savedFiles (run example_media_config (init_session example_media_config example_disk) example_part_trace)) = [False]"
    by code_simp
  then have h: "requireFinalImageFrame example_media_config" "isImageRun example_media_config"
    "\<not> finished s" "map isStreamPart (s_savedFiles s) = [True]"
    "map isFinalStreamFrame (s_savedFiles s) = [False]"
    by (simp_all add: s_def)
  from h(4) have p: "\<exists>f \<in> set (s_savedFiles s). isStreamPart f"
    by (cases "s_savedFiles s") auto
  from h(5) have f: "\<forall>f \<in> set (s_savedFiles s). \<not> isFinalStreamFrame f"
    by (cases "s_savedFiles s") auto
  from idle_timer_unarmed_until_final_frame [OF h(1) h(2) s_def h(3) p f]
  have "idleTimer s = None \<and> idleTimer (markConvoStreamCompleted example_media_config s) = None"
    by blast
  with h show ?thesis by (simp add: s_def)
qed

section \<open>Hard timeout, drained queue and the latest file\<close>

lemma markConvo_fields [simp]:
  "s_savedCount (markConvoStreamCompleted cfg s) = s_savedCount s"
  "s_savedFiles (markConvoStreamCompleted cfg s) = s_savedFiles s"
  "s_disk (markConvoStreamCompleted cfg s) = s_disk s"
  "queue (markConvoStreamCompleted cfg s) = queue s"
  "listening (markConvoStreamCompleted cfg s) = listening s"
  by (simp_all add: markConvoStreamCompleted_def Let_def emitStreamEvent_def)

lemma step_after_end:
  assumes "finished s" and "\<not> listening s" and "queue s = []"
  shows "s_savedFiles (step cfg s ev) = s_savedFiles s"
    and "s_savedCount (step cfg s ev) = s_savedCount s"
    and "files (s_disk (step cfg s ev)) = files (s_disk s)"
proof -
  have f: "finished (fire_timers s (fst ev))" using assms(1) by (rule fire_timers_finished_mono)
  show "s_savedFiles (step cfg s ev) = s_savedFiles s"
    by (cases "snd ev") (simp_all add: step_def Let_def onResponse_def f assms(3))
  show "s_savedCount (step cfg s ev) = s_savedCount s"
    by (cases "snd ev") (simp_all add: step_def Let_def onResponse_def f assms(3))
  show "files (s_disk (step cfg s ev)) = files (s_disk s)"
    by (cases "snd ev") (simp_all add: step_def Let_def onResponse_def f assms(3))
qed

lemma collect_result:
  assumes "copy_ok"
  shows "\<exists>res s' s3. collectChatGptDownloads cfg d copy_ok trace = Some (Inr (res, s'))
     \<and> session_at_end cfg d trace = Some s3
     \<and> finished s' \<and> \<not> listening s' \<and> queue s' = []
     \<and> savedCount res = s_savedCount s' \<and> savedFiles res = s_savedFiles s'
     \<and> streamEvents res = s_streamEvents s'
     \<and> s_savedFiles s' = s_savedFiles s3 \<and> s_savedCount s' = s_savedCount s3
     \<and> (\<exists>s4. copy_latest cfg copy_ok s3 = Inr s4 \<and> s_disk s' = s_disk s4)"
proof -
  from at_end_facts [of cfg d trace] obtain s3 where
    e: "session_at_end cfg d trace = Some s3"
    and inv: "session_inv cfg s3" and fin: "finished s3" and q: "queue s3 = []" by blast
  from inv have fi: "files_inv s3" and ti: "timers_inv cfg s3" by (simp_all add: session_inv_def)
  from ti fin have nl: "\<not> listening s3" by (simp add: timers_inv_def)
  from copy_latest_ok [OF fi assms, of cfg] obtain s4 where
    c: "copy_latest cfg copy_ok s3 = Inr s4" and
    k: "s_savedFiles s4 = s_savedFiles s3" "s_savedCount s4 = s_savedCount s3"
       "finished s4 = finished s3" "listening s4 = listening s3" "queue s4 = queue s3"
    by blast
  define s5 where "s5 = emitStreamEvent s4
                     ((blank_event CollectorComplete ''stream_collector'')
                        \<lparr> e_savedCount := Some (s_savedCount s4) \<rparr>)"
  have r: "collectChatGptDownloads cfg d copy_ok trace
      = Some (Inr (buildSaveResult (s_savedCount s5) (s_savedFiles s5) (s_metadataIds s5)
                     (s_streamEvents s5), s5))"
    by (simp add: collectChatGptDownloads_def e c Let_def s5_def)
  have "finished s5" "\<not> listening s5" "queue s5 = []" "s_savedFiles s5 = s_savedFiles s3"
    "s_savedCount s5 = s_savedCount s3" "s_disk s5 = s_disk s4"
    using k fin nl q by (simp_all add: s5_def)
  with r c e show ?thesis
    by (simp add: buildSaveResult_def)
qed

lemma collect_never_hangs: "\<exists>r. collectChatGptDownloads cfg d copy_ok trace = Some r"
  using at_end_facts [of cfg d trace] by (auto simp: collectChatGptDownloads_def)

text \<open>
  C8.  In every state \<open>s\<close> that a session reaches: while it is not finished, the hard timeout
  is pending at the time fixed at the start (start plus \<open>timeoutMs\<close>) and the listener is
  attached; whatever the next input is, once that time has come the step finishes the
  session; a finished session stays finished, its listener is detached and a response that
  arrives is dropped.  The polling loop ends for every trace of inputs, in a finished
  session, and \<open>collectChatGptDownloads\<close> returns or throws, it never hangs.  When the copy
  of the latest file does not throw it returns the aggregate, from a session that is
  finished, with the listener detached and the queue empty: the responses that were queued
  when the loop ended have all been handled, in order, and the aggregate reports the saved
  files and the count after that; no later input adds a saved file or writes a file.
\<close>

theorem hard_timeout_finishes_and_queue_drains:
  assumes "s = run cfg (init_session cfg d) trace"
  shows "(\<not> finished s \<longrightarrow> timeoutTimer s = Some (now d + timeoutMs cfg) \<and> listening s)
       \<and> (now d + timeoutMs cfg \<le> t \<longrightarrow> finished (step cfg s (t, inp)))
       \<and> (finished s \<longrightarrow> \<not> listening s \<and> finished (step cfg s (t, inp)) \<and> onResponse s r = s)
       \<and> (\<exists>s2. checkFinished s = Some s2 \<and> finished s2 \<and> \<not> listening s2
              \<and> session_at_end cfg d trace
                  = Some (foldl (processResponse cfg) (s2\<lparr> queue := [] \<rparr>) (queue s2))
              \<and> (copy_ok \<longrightarrow>
                   (\<exists>res s'. collectChatGptDownloads cfg d copy_ok trace = Some (Inr (res, s'))
                      \<and> finished s' \<and> \<not> listening s' \<and> queue s' = []
                      \<and> savedCount res = s_savedCount s' \<and> savedFiles res = s_savedFiles s'
                      \<and> streamEvents res = s_streamEvents s'
                      \<and> savedFiles res
                          = s_savedFiles (foldl (processResponse cfg) (s2\<lparr> queue := [] \<rparr>) (queue s2))
                      \<and> (\<forall>ev. s_savedFiles (step cfg s' ev) = s_savedFiles s'
                               \<and> s_savedCount (step cfg s' ev) = s_savedCount s'
                               \<and> files (s_disk (step cfg s' ev)) = files (s_disk s')))))
       \<and> (\<exists>outcome. collectChatGptDownloads cfg d copy_ok trace = Some outcome)"
proof -
  have inv: "session_inv cfg s" unfolding assms by (rule run_finished_or_armed)
  then have ti: "timers_inv cfg s" by (simp add: session_inv_def)
  have st: "startedAt s = now d" by (simp add: assms run_startedAt init_session_def)
  have a: "\<not> finished s \<longrightarrow> timeoutTimer s = Some (now d + timeoutMs cfg) \<and> listening s"
    using ti st by (simp add: timers_inv_def)
  have b: "finished (step cfg s (t, inp))" if "now d + timeoutMs cfg \<le> t"
  proof -
    from ti that st have "finished (fire_timers s t)" by (simp add: timeout_fires)
    then show ?thesis
      by (cases inp)
         (simp_all add: step_def Let_def onResponse_def processResponse_finished_mono
                   split: list.splits)
  qed
  have c: "\<not> listening s \<and> finished (step cfg s (t, inp)) \<and> onResponse s r = s" if "finished s"
    using that ti step_finished_mono [OF that, of cfg "(t, inp)"]
    by (simp add: timers_inv_def onResponse_def)
  from checkFinished_ends [OF inv] obtain s2 where
    p: "checkFinished s = Some s2" and f2: "finished s2" and i2: "session_inv cfg s2" by blast
  from i2 f2 have l2: "\<not> listening s2" by (simp add: session_inv_def timers_inv_def)
  have e: "session_at_end cfg d trace
             = Some (foldl (processResponse cfg) (s2\<lparr> queue := [] \<rparr>) (queue s2))"
    by (simp add: session_at_end_def assms [symmetric] p drain_def)
  have g: "\<exists>res s'. collectChatGptDownloads cfg d copy_ok trace = Some (Inr (res, s'))
             \<and> finished s' \<and> \<not> listening s' \<and> queue s' = []
             \<and> savedCount res = s_savedCount s' \<and> savedFiles res = s_savedFiles s'
             \<and> streamEvents res = s_streamEvents s'
             \<and> savedFiles res
                 = s_savedFiles (foldl (processResponse cfg) (s2\<lparr> queue := [] \<rparr>) (queue s2))
             \<and> (\<forall>ev. s_savedFiles (step cfg s' ev) = s_savedFiles s'
                      \<and> s_savedCount (step cfg s' ev) = s_savedCount s'
                      \<and> files (s_disk (step cfg s' ev)) = files (s_disk s'))"
    if "copy_ok"
  proof -
    from collect_result [OF that, of cfg d trace] obtain res s' s3 where
      r: "collectChatGptDownloads cfg d copy_ok trace = Some (Inr (res, s'))"
      and e3: "session_at_end cfg d trace = Some s3"
      and k: "finished s'" "\<not> listening s'" "queue s' = []"
      and h: "savedCount res = s_savedCount s'" "savedFiles res = s_savedFiles s'"
             "streamEvents res = s_streamEvents s'" "s_savedFiles s' = s_savedFiles s3"
      by blast
    from e e3 have "s3 = foldl (processResponse cfg) (s2\<lparr> queue := [] \<rparr>) (queue s2)" by simp
    with h have d: "savedFiles res
        = s_savedFiles (foldl (processResponse cfg) (s2\<lparr> queue := [] \<rparr>) (queue s2))" by simp
    have n: "\<forall>ev. s_savedFiles (step cfg s' ev) = s_savedFiles s'
                      \<and> s_savedCount (step cfg s' ev) = s_savedCount s'
                      \<and> files (s_disk (step cfg s' ev)) = files (s_disk s')"
      using step_after_end [OF k] by blast
    from r k h d n show ?thesis by blast
  qed
  show ?thesis
  proof (intro conjI)
    show "\<not> finished s \<longrightarrow> timeoutTimer s = Some (now d + timeoutMs cfg) \<and> listening s" by (rule a)
    show "now d + timeoutMs cfg \<le> t \<longrightarrow> finished (step cfg s (t, inp))" using b by blast
    show "finished s \<longrightarrow> \<not> listening s \<and> finished (step cfg s (t, inp)) \<and> onResponse s r = s"
      using c by blast
    show "\<exists>s2. checkFinished s = Some s2 \<and> finished s2 \<and> \<not> listening s2
              \<and> session_at_end cfg d trace
                  = Some (foldl (processResponse cfg) (s2\<lparr> queue := [] \<rparr>) (queue s2))
              \<and> (copy_ok \<longrightarrow>
                   (\<exists>res s'. collectChatGptDownloads cfg d copy_ok trace = Some (Inr (res, s'))
                      \<and> finished s' \<and> \<not> listening s' \<and> queue s' = []
                      \<and> savedCount res = s_savedCount s' \<and> savedFiles res = s_savedFiles s'
                      \<and> streamEvents res = s_streamEvents s'
                      \<and> savedFiles res
                          = s_savedFiles (foldl (processResponse cfg) (s2\<lparr> queue := [] \<rparr>) (queue s2))
                      \<and> (\<forall>ev. s_savedFiles (step cfg s' ev) = s_savedFiles s'
                               \<and> s_savedCount (step cfg s' ev) = s_savedCount s'
                               \<and> files (s_disk (step cfg s' ev)) = files (s_disk s'))))"
      using p f2 l2 e g by blast
    show "\<exists>outcome. collectChatGptDownloads cfg d copy_ok trace = Some outcome"
      by (rule collect_never_hangs)
  qed
qed

theorem hard_timeout_finishes_and_queue_drains_witness:
  "\<not> finished (run example_media_config (init_session example_media_config example_disk) example_part_trace)
   \<and> timeoutTimer (run example_media_config (init_session example_media_config example_disk) example_part_trace)
       = Some 90
   \<and> finished (step example_media_config
        (run example_media_config (init_session example_media_config example_disk) example_part_trace)
        (90, Tick))
   \<and> (\<exists>res s'. collectChatGptDownloads example_media_config example_disk True example_part_trace
                  = Some (Inr (res, s'))
         \<and> finished s' \<and> queue s' = [] \<and> savedFiles res = s_savedFiles s')"
proof -
  have nf: "\<not> finished (run example_media_config (init_session example_media_config example_disk) example_part_trace)"
    by code_simp
  have t: "now example_disk + timeoutMs example_media_config = 90"
    by (simp add: example_disk_def example_media_config_def)
  from hard_timeout_finishes_and_queue_drains
         [OF refl, of example_media_config example_disk example_part_trace 90 Tick _ True]
       nf t
  show ?thesis by auto
qed

lemma applyExtension_latest: "applyExtension ''latest'' ext = ''latest'' @ ext"
proof -
  have "extname ''latest'' = []" by code_simp
  then show ?thesis by (simp add: applyExtension_def)
qed

text \<open>
  C10.  When the session has saved at least one file and the copy does not throw,
  \<open>collectChatGptDownloads\<close> returns, and in the directory it leaves the path \<open>latest<ext>\<close>
  of the output directory (\<open>ext\<close> derived from the content type of the most recently saved
  file) holds the bytes of the most recently saved file, whatever was at that path before;
  no other path is touched; the aggregate lists the saved files of the session and counts
  them, without the copy.
\<close>

theorem latest_file_is_copied:
  assumes "session_at_end cfg d trace = Some s3" and "s_savedFiles s3 \<noteq> []"
    and "latestSaved = last (s_savedFiles s3)" and "copy_ok"
  shows "\<exists>res s. collectChatGptDownloads cfg d copy_ok trace = Some (Inr (res, s))
      \<and> files (s_disk s) (latestPath cfg latestSaved) = files (s_disk s3) (filePath latestSaved)
      \<and> files (s_disk s3) (filePath latestSaved) \<noteq> None
      \<and> latestPath cfg latestSaved
          = resolve_in (outputDir cfg) (''latest'' @ extensionFromContentType (contentType latestSaved))
      \<and> (\<forall>p. p \<noteq> latestPath cfg latestSaved \<longrightarrow> files (s_disk s) p = files (s_disk s3) p)
      \<and> savedFiles res = s_savedFiles s3 \<and> savedCount res = s_savedCount s3
      \<and> savedCount res = length (savedFiles res)"
proof -
  from at_end_facts [of cfg d trace] assms(1) have inv: "session_inv cfg s3" by auto
  then have fi: "files_inv s3" by (simp add: session_inv_def)
  from collect_result [OF assms(4), of cfg d trace] assms(1) obtain res s s4 where
    r: "collectChatGptDownloads cfg d copy_ok trace = Some (Inr (res, s))"
    and g: "savedCount res = s_savedCount s" "savedFiles res = s_savedFiles s"
           "s_savedFiles s = s_savedFiles s3" "s_savedCount s = s_savedCount s3"
    and c: "copy_latest cfg copy_ok s3 = Inr s4" "s_disk s = s_disk s4"
    by auto
  from copy_latest_ok [OF fi assms(4), of cfg] c(1) assms(2) have
    k: "files (s_disk s4) (latestPath cfg (last (s_savedFiles s3)))
            = files (s_disk s3) (filePath (last (s_savedFiles s3)))"
       "files (s_disk s3) (filePath (last (s_savedFiles s3))) \<noteq> None"
       "\<forall>p. p \<noteq> latestPath cfg (last (s_savedFiles s3)) \<longrightarrow> files (s_disk s4) p = files (s_disk s3) p"
    by auto
  have len: "length (s_savedFiles s3) = s_savedCount s3" using fi by (simp add: files_inv_def)
  have lp: "latestPath cfg latestSaved
          = resolve_in (outputDir cfg) (''latest'' @ extensionFromContentType (contentType latestSaved))"
    by (simp add: latestPath_def applyExtension_latest)
  show ?thesis
    using r g c(2) k len lp
    unfolding assms(3) by auto
qed

theorem latest_file_is_copied_witness:
  "(\<exists>s3. session_at_end example_media_config example_disk example_part_trace = Some s3
          \<and> s_savedFiles s3 \<noteq> [])
   \<and> (\<exists>res s. collectChatGptDownloads example_media_config example_disk True example_part_trace
                 = Some (Inr (res, s))
         \<and> files (s_disk s) ''/out/latest.png'' = Some ''PNG''
         \<and> savedCount res = 1)"
proof -
  have e: "case session_at_end example_media_config example_disk example_part_trace of
             None \<Rightarrow> False
           | Some s3 \<Rightarrow>
               map contentType (s_savedFiles s3) = [''image/png'']
               \<and> s_savedCount s3 = 1
               \<and> files (s_disk s3) (filePath (last (s_savedFiles s3))) = Some ''PNG''"
    by code_simp
  then obtain s3 where
    s3: "session_at_end example_media_config example_disk example_part_trace = Some s3"
    and h: "map contentType (s_savedFiles s3) = [''image/png'']" "s_savedCount s3 = 1"
           "files (s_disk s3) (filePath (last (s_savedFiles s3))) = Some ''PNG''"
    by (auto split: option.splits)
  from h(1) have ne: "s_savedFiles s3 \<noteq> []" and ct: "contentType (last (s_savedFiles s3)) = ''image/png''"
    by auto
  have p: "resolve_in (outputDir example_media_config)
             (''latest'' @ extensionFromContentType ''image/png'') = ''/out/latest.png''"
    by code_simp
  from latest_file_is_copied [OF s3 ne refl, of True] h ct p s3 ne
  show ?thesis by auto
qed

section \<open>Dedup, upload echoes and reference names\<close>

subsection \<open>One response saves at most one file\<close>

lemma handleFileBuffer_count:
  assumes "handleFileBuffer cfg s w buf ct name mid meta = Inr s'"
  shows "s_savedCount s' \<le> s_savedCount s + 1"
  using handleFileBuffer_shape [OF assms] by auto

lemma metadata_fetch_and_save_count:
  "s_savedCount (metadata_fetch_and_save cfg s r raw mid) \<le> s_savedCount s + 1"
  by (auto simp: metadata_fetch_and_save_def metadata_failed_def
           dest: handleFileBuffer_count split: sum.splits)

lemma metadata_download_count:
  "s_savedCount (metadata_download cfg s r body) \<le> s_savedCount s + 1"
  using metadata_fetch_and_save_count
          [of cfg "emitStreamEvent s ev" r raw mid for ev raw mid]
  by (simp add: metadata_download_def metadata_failed_def split: download_url_field.splits)

lemma process_metadata_count:
  "s_savedCount (process_metadata cfg s r) \<le> s_savedCount s + 1"
  using metadata_download_count [of cfg s r]
  by (simp add: process_metadata_def metadata_failed_def split: option.splits)

lemma estuary_fetch_and_save_count:
  "s_savedCount (estuary_fetch_and_save cfg s r itemId) \<le> s_savedCount s + 1"
  by (auto simp: estuary_fetch_and_save_def estuary_failed_def
           dest: handleFileBuffer_count split: sum.splits)

lemma process_estuary_count:
  "s_savedCount (process_estuary cfg s r) \<le> s_savedCount s + 1"
  using estuary_fetch_and_save_count [of cfg "emitStreamEvent s ev" r itemId for ev itemId]
  by (simp add: process_estuary_def estuary_failed_def split: option.splits)

lemma process_direct_count:
  "s_savedCount (process_direct cfg s r) \<le> s_savedCount s + 1"
proof (cases "shouldIgnoreCapturedFile cfg (direct_nameHint cfg s r) []")
  case True
  then show ?thesis by (simp add: process_direct_def Let_def)
next
  case False
  show ?thesis
  proof (cases "saveDownloadRecord cfg (s_disk s) (r_net r) (r_write_ok r) (r_url r)
                   (direct_nameHint cfg s r) (extractFileId (r_url r))")
    case (Inl e)
    with False show ?thesis by (simp add: process_direct_def Let_def absorb_empty)
  next
    case (Inr p)
    obtain res d' where p: "p = (res, d')" by (cases p)
    from saveDownloadRecord_Inr [OF Inr [unfolded p]] obtain saved ids where
      res: "res = buildSaveResult 1 [saved] ids []" by blast
    from False Inr p show ?thesis by (simp add: process_direct_def Let_def res)
  qed
qed

lemma classify_count: "s_savedCount (classify cfg s r) \<le> s_savedCount s + 1"
  using process_metadata_count [of cfg s r] process_direct_count [of cfg s r]
        process_estuary_count [of cfg s r]
  by (simp add: classify_def)

lemma classify_seen: "seen (classify cfg s r) = seen s"
  by (rule changes_seen) (rule classify_changes)

subsection \<open>Duplicates of a file run\<close>

lemma processResponse_file_run:
  assumes "\<not> isImageRun cfg" and "in_scope r"
  shows "processResponse cfg s r =
           (if dedupeKey r \<in> set (seen s) then s
            else classify cfg (s\<lparr> seen := seen s @ [dedupeKey r] \<rparr>) r)"
  using assms by (auto simp: processResponse_def in_scope_def)

lemma processResponse_marks_seen:
  assumes "\<not> isImageRun cfg" and "in_scope r"
  shows "dedupeKey r \<in> set (seen (processResponse cfg s r))"
  using assms by (simp add: processResponse_file_run classify_seen)

lemma processResponse_seen_drop:
  assumes "\<not> isImageRun cfg" and "dedupeKey r \<in> set (seen s)"
  shows "processResponse cfg s r = s"
  using assms by (simp add: processResponse_def)

lemma duplicates_dropped:
  assumes "\<not> isImageRun cfg" and "\<forall>r' \<in> set rs. dedupeKey r' \<in> set (seen s)"
  shows "foldl (processResponse cfg) s rs = s"
  using assms(2)
  by (induction rs) (simp_all add: processResponse_seen_drop [OF assms(1)])

lemma processResponse_count: "s_savedCount (processResponse cfg s r) \<le> s_savedCount s + 1"
  using classify_count [of cfg s r]
        classify_count [of cfg "s\<lparr> seen := seen s @ [dedupeKey r] \<rparr>" r]
  by (simp add: processResponse_def)

text \<open>
  C3.  In a session that is not an image run, for a response in scope followed by any
  responses with the same dedup key (the file id of the URL, or the URL when it has none):
  handling the whole sequence is handling the first response alone, so the later ones are
  dropped before they are classified; the count grows by at most one; when the key was
  seen before, the sequence changes nothing, and otherwise the first response is
  classified, with its key marked as seen.
\<close>

theorem duplicate_downloads_are_dropped:
  assumes "\<not> isImageRun cfg" and "in_scope r"
    and "\<forall>r' \<in> set rs. dedupeKey r' = dedupeKey r"
  shows "foldl (processResponse cfg) s (r # rs) = processResponse cfg s r
       \<and> s_savedCount (foldl (processResponse cfg) s (r # rs)) \<le> s_savedCount s + 1
       \<and> (\<forall>r' \<in> set rs. processResponse cfg (processResponse cfg s r) r' = processResponse cfg s r)
       \<and> (dedupeKey r \<in> set (seen s) \<longrightarrow> foldl (processResponse cfg) s (r # rs) = s)
       \<and> (dedupeKey r \<notin> set (seen s) \<longrightarrow>
            foldl (processResponse cfg) s (r # rs)
              = classify cfg (s\<lparr> seen := seen s @ [dedupeKey r] \<rparr>) r)"
proof -
  have m: "dedupeKey r \<in> set (seen (processResponse cfg s r))"
    using assms(1,2) by (rule processResponse_marks_seen)
  with assms(3) have a: "\<forall>r' \<in> set rs. dedupeKey r' \<in> set (seen (processResponse cfg s r))"
    by simp
  have f: "foldl (processResponse cfg) s (r # rs) = processResponse cfg s r"
    using duplicates_dropped [OF assms(1) a] by simp
  have d: "\<forall>r' \<in> set rs. processResponse cfg (processResponse cfg s r) r' = processResponse cfg s r"
    using a processResponse_seen_drop [OF assms(1)] by blast
  have e: "dedupeKey r \<in> set (seen s) \<longrightarrow> foldl (processResponse cfg) s (r # rs) = s"
  proof
    assume "dedupeKey r \<in> set (seen s)"
    with assms(1) have "processResponse cfg s r = s" by (rule processResponse_seen_drop)
    with f show "foldl (processResponse cfg) s (r # rs) = s" by (simp only:)
  qed
  have c: "s_savedCount (foldl (processResponse cfg) s (r # rs)) \<le> s_savedCount s + 1"
    unfolding f by (rule processResponse_count)
  have g: "dedupeKey r \<notin> set (seen s) \<longrightarrow>
            foldl (processResponse cfg) s (r # rs)
              = classify cfg (s\<lparr> seen := seen s @ [dedupeKey r] \<rparr>) r"
    unfolding f using assms(1,2) by (simp add: processResponse_file_run)
  show ?thesis
    using f c d e g by blast
qed

theorem duplicate_downloads_are_dropped_witness:
  "\<not> isImageRun example_file_config
   \<and> in_scope (example_metadata_response (Some ''a.png'') network_up)
   \<and> s_savedCount (foldl (processResponse example_file_config)
        (init_session example_file_config example_disk)
        [example_metadata_response (Some ''a.png'') network_up,
         example_metadata_response (Some ''a.png'') network_down,
         example_metadata_response (Some ''a.png'') network_up]) = 1"
proof -
  have e: "\<not> isImageRun example_file_config
     \<and> in_scope (example_metadata_response (Some ''a.png'') network_up)
     \<and> dedupeKey (example_metadata_response (Some ''a.png'') network_down)
         = dedupeKey (example_metadata_response (Some ''a.png'') network_up)
     \<and> s_savedCount (processResponse example_file_config
          (init_session example_file_config example_disk)
          (example_metadata_response (Some ''a.png'') network_up)) = 1"
    by code_simp
  then have h: "\<forall>r' \<in> set [example_metadata_response (Some ''a.png'') network_down,
                            example_metadata_response (Some ''a.png'') network_up].
                  dedupeKey r' = dedupeKey (example_metadata_response (Some ''a.png'') network_up)"
    by simp
  from e duplicate_downloads_are_dropped
         [of example_file_config "example_metadata_response (Some ''a.png'') network_up"
             "[example_metadata_response (Some ''a.png'') network_down,
               example_metadata_response (Some ''a.png'') network_up]"
             "init_session example_file_config example_disk", OF _ _ h]
  show ?thesis by simp
qed

theorem duplicate_after_failed_save_counterexample:
  "\<not> isImageRun example_file_config
   \<and> in_scope (example_metadata_response (Some ''a.png'') network_down)
   \<and> in_scope (example_metadata_response (Some ''a.png'') network_up)
   \<and> dedupeKey (example_metadata_response (Some ''a.png'') network_down)
       = dedupeKey (example_metadata_response (Some ''a.png'') network_up)
   \<and> s_savedCount (foldl (processResponse example_file_config)
        (init_session example_file_config example_disk)
        [example_metadata_response (Some ''a.png'') network_down,
         example_metadata_response (Some ''a.png'') network_up]) = 0"
  by code_simp

subsection \<open>Upload echoes\<close>

text \<open>
  C5.  When the caller uploaded at least one reference file with a name (the set of
  ignored names is not empty), a JSON response of a download URL whose body is an object
  with no \<open>file_name\<close> (or an empty one) and no positive \<open>file_size_bytes\<close> is answered
  with the \<open>file_ignored\<close> event of an upload echo and nothing else: no saved file, no
  count, no write.
\<close>

theorem upload_echo_is_discarded:
  assumes "ignoredFileNameSet cfg \<noteq> []"
    and "hostname (r_url r) = ''chatgpt.com''" and "isDownload r"
    and "isJsonContentType (r_contentType r)"
    and "r_json r = Some (BodyObject fileInfo)"
    and "file_name fileInfo = None \<or> file_name fileInfo = Some []"
    and "file_size_bytes fileInfo = None \<or> (\<exists>n \<le> 0. file_size_bytes fileInfo = Some n)"
  shows "classify cfg s r = emitStreamEvent s (upload_echo_event r)
       \<and> e_type (upload_echo_event r) = FileIgnored
       \<and> s_savedFiles (processResponse cfg s r) = s_savedFiles s
       \<and> s_savedCount (processResponse cfg s r) = s_savedCount s
       \<and> s_disk (processResponse cfg s r) = s_disk s
       \<and> (isImageRun cfg \<or> dedupeKey r \<notin> set (seen s) \<longrightarrow>
            s_streamEvents (processResponse cfg s r) = s_streamEvents s @ [upload_echo_event r])"
proof -
  have echo: "isLikelyUploadEchoMetadata (BodyObject fileInfo)"
    using assms(6,7) by (auto simp: isLikelyUploadEchoMetadata_def Let_def trim_def)
  have c: "classify cfg s' r = emitStreamEvent s' (upload_echo_event r)" for s'
    using assms(1,3,4,5) echo by (simp add: classify_def process_metadata_def)
  have t: "e_type (upload_echo_event r) = FileIgnored"
    by (simp add: upload_echo_event_def blank_event_def)
  have p: "processResponse cfg s r = s
         \<or> processResponse cfg s r = emitStreamEvent s (upload_echo_event r)
         \<or> processResponse cfg s r
             = emitStreamEvent (s\<lparr> seen := seen s @ [dedupeKey r] \<rparr>) (upload_echo_event r)"
    by (simp add: processResponse_def c)
  have q: "s_streamEvents (processResponse cfg s r) = s_streamEvents s @ [upload_echo_event r]"
    if "isImageRun cfg \<or> dedupeKey r \<notin> set (seen s)"
    using that assms(2,3) by (auto simp: processResponse_def c)
  show ?thesis
  proof (intro conjI impI)
    show "classify cfg s r = emitStreamEvent s (upload_echo_event r)" by (rule c)
    show "e_type (upload_echo_event r) = FileIgnored" by (rule t)
    show "s_savedFiles (processResponse cfg s r) = s_savedFiles s" using p by auto
    show "s_savedCount (processResponse cfg s r) = s_savedCount s" using p by auto
    show "s_disk (processResponse cfg s r) = s_disk s" using p by auto
    show "s_streamEvents (processResponse cfg s r) = s_streamEvents s @ [upload_echo_event r]"
      if "isImageRun cfg \<or> dedupeKey r \<notin> set (seen s)" using that by (rule q)
  qed
qed

theorem upload_echo_is_discarded_witness:
  "ignoredFileNameSet example_media_config \<noteq> []
   \<and> isDownload (example_metadata_response None network_up)
   \<and> isJsonContentType (r_contentType (example_metadata_response None network_up))
   \<and> s_savedCount (processResponse example_media_config
        (init_session example_media_config example_disk)
        (example_metadata_response None network_up)) = 0
   \<and> map e_type (s_streamEvents (processResponse example_media_config
        (init_session example_media_config example_disk)
        (example_metadata_response None network_up))) = [FileIgnored]"
proof -
  define fi where "fi = \<lparr> download_url = DownloadUrl example_content_url, file_name = None,
                          file_size_bytes = None, detail_message = None, item = None \<rparr>"
  have e: "ignoredFileNameSet example_media_config \<noteq> []
     \<and> hostname (r_url (example_metadata_response None network_up)) = ''chatgpt.com''
     \<and> isDownload (example_metadata_response None network_up)
     \<and> isJsonContentType (r_contentType (example_metadata_response None network_up))
     \<and> isImageRun example_media_config"
    by code_simp
  have j: "r_json (example_metadata_response None network_up) = Some (BodyObject fi)"
    by (simp add: example_metadata_response_def example_body_def fi_def)
  have n: "file_name fi = None \<or> file_name fi = Some []"
    and z: "file_size_bytes fi = None \<or> (\<exists>n \<le> 0. file_size_bytes fi = Some n)"
    by (simp_all add: fi_def)
  have i: "s_savedCount (init_session example_media_config example_disk) = 0"
    "s_streamEvents (init_session example_media_config example_disk) = []"
    by (simp_all add: init_session_def)
  from e i upload_echo_is_discarded
         [of example_media_config "example_metadata_response None network_up" fi
             "init_session example_media_config example_disk", OF _ _ _ _ j n z]

  show ?thesis by (simp add: upload_echo_event_def blank_event_def)
qed

theorem upload_echo_without_references_counterexample:
  "ignoreFileNames example_file_config = []
   \<and> in_scope (example_metadata_response None network_up)
   \<and> isDownload (example_metadata_response None network_up)
   \<and> isJsonContentType (r_contentType (example_metadata_response None network_up))
   \<and> r_json (example_metadata_response None network_up) = Some (example_body None)
   \<and> isLikelyUploadEchoMetadata (example_body None)
   \<and> s_savedCount (processResponse example_file_config
        (init_session example_file_config example_disk)
        (example_metadata_response None network_up)) = 1
   \<and> map e_type (s_streamEvents (processResponse example_file_config
        (init_session example_file_config example_disk)
        (example_metadata_response None network_up))) = [DownloadUrlResolved, FileSaved]"
  by code_simp

subsection \<open>Names of uploaded reference files\<close>

lemma shouldIgnore_reference_name:
  assumes "u \<in> set (ignoreFileNames cfg)"
    and "normalizeMatchFileName (Some name) = normalizeMatchFileName (Some u)"
    and "normalizeMatchFileName (Some name) \<noteq> []"
  shows "shouldIgnoreCapturedFile cfg name src"
proof -
  have "normalizeMatchFileName (Some u) \<in> set (ignoredFileNameSet cfg)"
    using assms by (auto simp: ignoredFileNameSet_def set_js_unique)
  moreover from this have "ignoredFileNameSet cfg \<noteq> []" by auto
  ultimately show ?thesis
    using assms(2,3) by (simp add: shouldIgnoreCapturedFile_def Let_def)
qed

lemma handleFileBuffer_ignored:
  assumes "shouldIgnoreCapturedFile cfg name (case em_sourceFileName meta of Some n \<Rightarrow> n | None \<Rightarrow> [])"
  shows "\<exists>ev. handleFileBuffer cfg s w buf ct name mid meta = Inr (emitStreamEvent s ev)
            \<and> e_type ev = FileIgnored \<and> e_reason ev = ''matches_upload_reference_name''"
proof -
  let ?ev = "(blank_event FileIgnored (if em_source meta \<noteq> [] then em_source meta else ''stream_response''))
                \<lparr> e_metadataId := nonempty_string mid,
                  e_fileName := (if trim name \<noteq> [] then Some (basename (trim name)) else None),
                  e_sourceFileName :=
                    (case em_sourceFileName meta of
                       None \<Rightarrow> None
                     | Some n \<Rightarrow> if trim n \<noteq> [] then Some (basename (trim n)) else None),
                  e_reason := ''matches_upload_reference_name'' \<rparr>"
  have "handleFileBuffer cfg s w buf ct name mid meta = Inr (emitStreamEvent s ?ev)"
    using assms by (simp add: handleFileBuffer_def)
  moreover have "e_type ?ev = FileIgnored \<and> e_reason ?ev = ''matches_upload_reference_name''"
    by (simp add: blank_event_def)
  ultimately show ?thesis by blast
qed

text \<open>
  Within the capture session, a candidate whose resolved name has the basename of an
  uploaded reference file, compared without case, is ignored on each of the three paths
  that save: \<open>handleFileBuffer\<close> returns the session with one \<open>file_ignored\<close> event added,
  whatever the buffer, the content type, the id and the frame attributes are; so do the
  metadata branch and the estuary branch, which resolve the name after the fetch, and the
  direct branch, which resolves it from the response.
\<close>

lemma reference_name_is_ignored_in_session:
  assumes "u \<in> set (ignoreFileNames cfg)"
    and "normalizeMatchFileName (Some name) = normalizeMatchFileName (Some u)"
    and "normalizeMatchFileName (Some name) \<noteq> []"
  shows "(\<exists>ev. handleFileBuffer cfg s w buf ct name mid meta = Inr (emitStreamEvent s ev)
             \<and> e_type ev = FileIgnored \<and> e_reason ev = ''matches_upload_reference_name'')
       \<and> (fst (fetchDownloadWithRetry (preferCurlDownloads cfg) (r_net r) 4 (isFileRun cfg)) = Inr got
            \<and> metadata_nameCandidate cfg s raw got = name \<longrightarrow>
          (\<exists>ev. metadata_fetch_and_save cfg s r raw mid = emitStreamEvent s ev
             \<and> e_type ev = FileIgnored \<and> e_reason ev = ''matches_upload_reference_name''))
       \<and> (fst (fetchDownloadWithRetry (preferCurlDownloads cfg) (r_net r) 4 (isFileRun cfg)) = Inr got
            \<and> estuary_nameHint cfg itemId got = name \<longrightarrow>
          (\<exists>ev. estuary_fetch_and_save cfg s r itemId = emitStreamEvent s ev
             \<and> e_type ev = FileIgnored \<and> e_reason ev = ''matches_upload_reference_name''))
       \<and> (direct_nameHint cfg s r = name \<longrightarrow>
          (\<exists>ev. process_direct cfg s r = emitStreamEvent s ev
             \<and> e_type ev = FileIgnored \<and> e_reason ev = ''matches_upload_reference_name''))"
proof -
  have ign: "shouldIgnoreCapturedFile cfg name src" for src
    using assms by (rule shouldIgnore_reference_name)
  have h: "\<exists>ev. handleFileBuffer cfg s w' buf' ct' name mid' meta' = Inr (emitStreamEvent s ev)
             \<and> e_type ev = FileIgnored \<and> e_reason ev = ''matches_upload_reference_name''"
    for w' buf' ct' mid' meta'
    using ign by (rule handleFileBuffer_ignored)
  have m: "\<exists>ev. metadata_fetch_and_save cfg s r raw mid = emitStreamEvent s ev
             \<and> e_type ev = FileIgnored \<and> e_reason ev = ''matches_upload_reference_name''"
    if "fst (fetchDownloadWithRetry (preferCurlDownloads cfg) (r_net r) 4 (isFileRun cfg)) = Inr got
          \<and> metadata_nameCandidate cfg s raw got = name"
  proof -
    from h [of "r_write_ok r" "f_buffer got" "f_contentType got" mid
               "metadata_event_meta (parseImageStreamFrameInfo (Some raw))"]
    obtain ev where b: "handleFileBuffer cfg s (r_write_ok r) (f_buffer got) (f_contentType got) name mid
               (metadata_event_meta (parseImageStreamFrameInfo (Some raw))) = Inr (emitStreamEvent s ev)"
      and t: "e_type ev = FileIgnored \<and> e_reason ev = ''matches_upload_reference_name''" by blast
    from that b have "metadata_fetch_and_save cfg s r raw mid = emitStreamEvent s ev"
      by (simp add: metadata_fetch_and_save_def)
    with t show ?thesis by blast
  qed
  have e: "\<exists>ev. estuary_fetch_and_save cfg s r itemId = emitStreamEvent s ev
             \<and> e_type ev = FileIgnored \<and> e_reason ev = ''matches_upload_reference_name''"
    if "fst (fetchDownloadWithRetry (preferCurlDownloads cfg) (r_net r) 4 (isFileRun cfg)) = Inr got
          \<and> estuary_nameHint cfg itemId got = name"
  proof -
    from h [of "r_write_ok r" "f_buffer got" "f_contentType got" "Some itemId" estuary_event_meta]
    obtain ev where b: "handleFileBuffer cfg s (r_write_ok r) (f_buffer got) (f_contentType got) name
               (Some itemId) estuary_event_meta = Inr (emitStreamEvent s ev)"
      and t: "e_type ev = FileIgnored \<and> e_reason ev = ''matches_upload_reference_name''" by blast
    from that b have "estuary_fetch_and_save cfg s r itemId = emitStreamEvent s ev"
      by (simp add: estuary_fetch_and_save_def)
    with t show ?thesis by blast
  qed
  have d: "\<exists>ev. process_direct cfg s r = emitStreamEvent s ev
             \<and> e_type ev = FileIgnored \<and> e_reason ev = ''matches_upload_reference_name''"
    if "direct_nameHint cfg s r = name"
  proof -
    let ?ev = "(blank_event FileIgnored ''download_response'')
                   \<lparr> e_metadataId := extractFileId (r_url r), e_fileName := or_null name,
                     e_reason := ''matches_upload_reference_name'' \<rparr>"
    have "process_direct cfg s r = emitStreamEvent s ?ev"
      using that ign [of "[]"] by (simp add: process_direct_def Let_def)
    moreover have "e_type ?ev = FileIgnored \<and> e_reason ?ev = ''matches_upload_reference_name''"
      by (simp add: blank_event_def)
    ultimately show ?thesis by blast
  qed
  show ?thesis
  proof (intro conjI impI)
    show "\<exists>ev. handleFileBuffer cfg s w buf ct name mid meta = Inr (emitStreamEvent s ev)
             \<and> e_type ev = FileIgnored \<and> e_reason ev = ''matches_upload_reference_name''"
      by (rule h)
    show "\<exists>ev. metadata_fetch_and_save cfg s r raw mid = emitStreamEvent s ev
             \<and> e_type ev = FileIgnored \<and> e_reason ev = ''matches_upload_reference_name''"
      if "fst (fetchDownloadWithRetry (preferCurlDownloads cfg) (r_net r) 4 (isFileRun cfg)) = Inr got
          \<and> metadata_nameCandidate cfg s raw got = name"
      using that by (rule m)
    show "\<exists>ev. estuary_fetch_and_save cfg s r itemId = emitStreamEvent s ev
             \<and> e_type ev = FileIgnored \<and> e_reason ev = ''matches_upload_reference_name''"
      if "fst (fetchDownloadWithRetry (preferCurlDownloads cfg) (r_net r) 4 (isFileRun cfg)) = Inr got
          \<and> estuary_nameHint cfg itemId got = name"
      using that by (rule e)
    show "\<exists>ev. process_direct cfg s r = emitStreamEvent s ev
             \<and> e_type ev = FileIgnored \<and> e_reason ev = ''matches_upload_reference_name''"
      if "direct_nameHint cfg s r = name"
      using that by (rule d)
  qed
qed

lemma reference_name_is_ignored_example:
  "''ref.png'' \<in> set (ignoreFileNames example_media_config)
   \<and> normalizeMatchFileName (Some ''Ref.PNG'') = normalizeMatchFileName (Some ''ref.png'')
   \<and> direct_nameHint example_media_config (init_session example_media_config example_disk)
        (example_direct_response ''Ref.PNG'' network_up) = ''Ref.PNG''
   \<and> (\<exists>ev. process_direct example_media_config (init_session example_media_config example_disk)
              (example_direct_response ''Ref.PNG'' network_up)
            = emitStreamEvent (init_session example_media_config example_disk) ev
          \<and> e_type ev = FileIgnored)
   \<and> map e_type (s_streamEvents (processResponse example_media_config
         (init_session example_media_config example_disk)
         (example_metadata_response (Some ''Ref.PNG'') network_up)))
       = [DownloadUrlResolved, FileIgnored]
   \<and> s_savedCount (processResponse example_media_config
         (init_session example_media_config example_disk)
         (example_metadata_response (Some ''Ref.PNG'') network_up)) = 0"
proof -
  have e: "''ref.png'' \<in> set (ignoreFileNames example_media_config)
     \<and> normalizeMatchFileName (Some ''Ref.PNG'') = normalizeMatchFileName (Some ''ref.png'')
     \<and> normalizeMatchFileName (Some ''Ref.PNG'') \<noteq> []
     \<and> direct_nameHint example_media_config (init_session example_media_config example_disk)
          (example_direct_response ''Ref.PNG'' network_up) = ''Ref.PNG''"
    by code_simp
  then have h: "''ref.png'' \<in> set (ignoreFileNames example_media_config)"
    "normalizeMatchFileName (Some ''Ref.PNG'') = normalizeMatchFileName (Some ''ref.png'')"
    "normalizeMatchFileName (Some ''Ref.PNG'') \<noteq> []"
    by blast+
  have m: "map e_type (s_streamEvents (processResponse example_media_config
         (init_session example_media_config example_disk)
         (example_metadata_response (Some ''Ref.PNG'') network_up)))
       = [DownloadUrlResolved, FileIgnored]
   \<and> s_savedCount (processResponse example_media_config
         (init_session example_media_config example_disk)
         (example_metadata_response (Some ''Ref.PNG'') network_up)) = 0"
    by code_simp
  from reference_name_is_ignored_in_session
         [OF h, of "init_session example_media_config example_disk" _ _ _ _ _
                   "example_direct_response ''Ref.PNG'' network_up"]
       e m
  show ?thesis by blast
qed


section \<open>The byte resolver\<close>

lemma request_loop_accepts:
  "request_loop req n ks st sl = (Inr got, sl') \<Longrightarrow>
     \<exists>k \<in> set ks. req k = Responded got \<and> response_ok got
        \<and> \<not> isJsonContentType (f_contentType got)"
proof (induction ks arbitrary: st sl)
  case Nil
  then show ?case by simp
next
  case (Cons k ks)
  show ?case
  proof (cases "req k")
    case Threw
    with Cons.prems have
      "request_loop req n ks st (if k < n then sl @ [350 * k] else sl) = (Inr got, sl')"
      by simp
    from Cons.IH [OF this] show ?thesis by auto
  next
    case (Unreadable status)
    with Cons.prems have
      "request_loop req n ks (Some status) (if k < n then sl @ [350 * k] else sl) = (Inr got, sl')"
      by simp
    from Cons.IH [OF this] show ?thesis by auto
  next
    case (Responded r)
    show ?thesis
    proof (cases "response_ok r \<and> \<not> isJsonContentType (f_contentType r)")
      case True
      with Responded Cons.prems have "r = got" by simp
      with True Responded show ?thesis by simp
    next
      case False
      with Responded Cons.prems have
        "request_loop req n ks (Some (f_status r)) (if k < n then sl @ [350 * k] else sl)
           = (Inr got, sl')"
        by auto
      from Cons.IH [OF this] show ?thesis by auto
    qed
  qed
qed

text \<open>
  Without the curl branch the resolver returns only what one of its four requests answered
  with a success status and a content type other than JSON.
\<close>

lemma request_channel_accepts:
  assumes "\<not> (preferCurl \<and> configPreferCurl) \<or> curl net = None"
    and "fst (fetchDownloadWithRetry configPreferCurl net 4 preferCurl) = Inr got"
  shows "\<exists>k \<in> {1, 2, 3, 4}. request net k = Responded got \<and> response_ok got
           \<and> \<not> isJsonContentType (f_contentType got)"
proof -
  have u: "[1..<Suc 4] = [1, 2, 3, 4]" by (simp add: upt_rec)
  have
    "fetchDownloadWithRetry configPreferCurl net 4 preferCurl
       = request_loop (request net) 4 [1, 2, 3, 4] None []"
    unfolding fetchDownloadWithRetry_def u using assms(1) by auto
  with assms(2) obtain sl where
    "request_loop (request net) 4 [1, 2, 3, 4] None [] = (Inr got, sl)"
    by (cases "request_loop (request net) 4 [1, 2, 3, 4] None []") auto
  from request_loop_accepts [OF this] show ?thesis by auto
qed

text \<open>
  When the four requests are rejected the resolver has slept 350, 700 and 1050
  milliseconds between them and throws.
\<close>

lemma request_channel_exhausted:
  assumes "\<not> (preferCurl \<and> configPreferCurl) \<or> curl net = None"
    and "\<forall>k \<in> {1, 2, 3, 4}. rejected (request net k)"
  shows "\<exists>st. fetchDownloadWithRetry configPreferCurl net 4 preferCurl
               = (Inl (DownloadFailed st), [350, 700, 1050])"
proof -
  have u: "[1..<Suc 4] = [1, 2, 3, 4]" by (simp add: upt_rec)
  have f:
    "fetchDownloadWithRetry configPreferCurl net 4 preferCurl
       = request_loop (request net) 4 [1, 2, 3, 4] None []"
    unfolding fetchDownloadWithRetry_def u using assms(1) by auto
  have step: "rejected (req k) \<Longrightarrow>
      \<exists>st'. request_loop req n (k # ks) st sl
               = request_loop req n ks st' (if k < n then sl @ [350 * k] else sl)"
    for req k n ks st sl
    by (cases "req k") (auto simp: rejected_def)
  from assms(2) have r: "rejected (request net 1)" "rejected (request net 2)"
    "rejected (request net 3)" "rejected (request net 4)" by simp_all
  from step [of "request net" 1 4 "[2, 3, 4]" None "[]", OF r(1)] obtain st1 where
    a1: "request_loop (request net) 4 [1, 2, 3, 4] None []
           = request_loop (request net) 4 [2, 3, 4] st1 [350]" by auto
  from step [of "request net" 2 4 "[3, 4]" st1 "[350]", OF r(2)] obtain st2 where
    a2: "request_loop (request net) 4 [2, 3, 4] st1 [350]
           = request_loop (request net) 4 [3, 4] st2 [350, 700]" by auto
  from step [of "request net" 3 4 "[4]" st2 "[350, 700]", OF r(3)] obtain st3 where
    a3: "request_loop (request net) 4 [3, 4] st2 [350, 700]
           = request_loop (request net) 4 [4] st3 [350, 700, 1050]" by auto
  from step [of "request net" 4 4 "[]" st3 "[350, 700, 1050]", OF r(4)] obtain st4 where
    a4: "request_loop (request net) 4 [4] st3 [350, 700, 1050]
           = request_loop (request net) 4 [] st4 [350, 700, 1050]" by auto
  show ?thesis unfolding f a1 a2 a3 a4 by simp
qed

text \<open>
  A fetch that throws ends the handling of its response with a \<open>save_failed\<close> event; the
  session is left as it was otherwise and goes on.
\<close>

lemma failed_fetch_is_reported:
  assumes "fst (fetchDownloadWithRetry (preferCurlDownloads cfg) (r_net r) 4 (isFileRun cfg)) = Inl e"
  shows "metadata_fetch_and_save cfg s r raw mid
           = emitStreamEvent s
               (save_failed_event ''files_download_metadata'' (extractFileId (r_url r))
                  (r_contentType r))"
    and "estuary_fetch_and_save cfg s r itemId
           = emitStreamEvent s (save_failed_event ''estuary_content'' None (r_contentType r))"
    and "\<not> shouldIgnoreCapturedFile cfg (direct_nameHint cfg s r) [] \<Longrightarrow>
         s_savedCount s < maxFiles cfg \<Longrightarrow>
         process_direct cfg s r
           = emitStreamEvent s
               (save_failed_event ''download_response'' (extractFileId (r_url r))
                  (r_contentType r))"
  using assms
  by (simp_all add: metadata_fetch_and_save_def metadata_failed_def estuary_fetch_and_save_def
        estuary_failed_def process_direct_def saveDownloadRecord_def Let_def absorb_empty
        arm_after_direct_def)

lemma failed_fetch_example:
  "fetchDownloadWithRetry True network_down 4 True = (Inl (DownloadFailed None), [350, 700, 1050])
   \<and> map e_type (s_streamEvents (foldl (processResponse example_file_config)
        (init_session example_file_config example_disk)
        [example_metadata_response (Some ''a.png'') network_down,
         example_direct_response [] network_up]))
      = [DownloadUrlResolved, SaveFailed]
   \<and> \<not> finished (processResponse example_file_config
        (init_session example_file_config example_disk)
        (example_metadata_response (Some ''a.png'') network_down))"
  by code_simp

text \<open>
  C7.  The claim fails on the curl branch.  In a file run with \<open>preferCurlDownloads\<close> the
  resolver returns what \<open>fetchDownloadWithCurl\<close> fetched without looking at its content
  type: for a download URL that curl answers with status 200 and the content type
  \<open>application/json\<close>, the request loop (which rejects such a response) is never entered,
  the JSON body comes back as the bytes of the candidate, and the session saves it.
\<close>

theorem curl_branch_returns_json_response:
  "isFileRun example_file_config \<and> preferCurlDownloads example_file_config
   \<and> curl network_curl_json = Some example_json
   \<and> response_ok example_json \<and> isJsonContentType (f_contentType example_json)
   \<and> fetchDownloadWithRetry (preferCurlDownloads example_file_config) network_curl_json 4
        (isFileRun example_file_config) = (Inr example_json, [])
   \<and> map e_type (s_streamEvents (processResponse example_file_config
        (init_session example_file_config example_disk)
        (example_metadata_response (Some ''report.csv'') network_curl_json)))
      = [DownloadUrlResolved, FileSaved]
   \<and> map contentType (s_savedFiles (processResponse example_file_config
        (init_session example_file_config example_disk)
        (example_metadata_response (Some ''report.csv'') network_curl_json)))
      = [''application/json'']
   \<and> files (s_disk (processResponse example_file_config
        (init_session example_file_config example_disk)
        (example_metadata_response (Some ''report.csv'') network_curl_json))) ''/out/report.csv''
      = Some ''{}''"
  by code_simp

end
